theory Spec2Isabelle
  imports Complex_Main
begin

section \<open>Data model\<close>

text \<open>
  The model collaborator of \<^verbatim>\<open>pyomo/dae/init_cond.py\<close>. A component is known by its
  identity (Python's \<^verbatim>\<open>id(comp)\<close>), an index set likewise. An index is the flattened
  tuple of its values, as Pyomo normalises indices: a bare value is the list of length
  one, the index \<^verbatim>\<open>None\<close> of a scalar component the empty list. A ComponentData is
  addressed by its component and its index.
\<close>

type_synonym cid = nat
type_synonym setid = nat
type_synonym 'v index = "'v list"
type_synonym 'v did = "cid \<times> 'v index"

datatype ctype = Block | Constraint

text \<open>
  The exceptions of the source, under the names the specification gives them:
  \<^item> \<open>InvalidPointError\<close>: the \<^verbatim>\<open>ValueError\<close> of \<^verbatim>\<open>deactivate_model_at\<close>;
  \<^item> \<open>MissingIndexError\<close>: the \<^verbatim>\<open>KeyError\<close> of a lookup \<^verbatim>\<open>comp[index]\<close>;
  \<^item> \<open>UnsupportedNestingError\<close>: the \<^verbatim>\<open>ValueError\<close> of
    \<^verbatim>\<open>get_inconsistent_initial_conditions\<close>;
  \<^item> \<open>UnsupportedSchemeError\<close>: the \<^verbatim>\<open>NotImplementedError\<close> of
    \<^verbatim>\<open>solve_consistent_initial_conditions\<close>;
  \<^item> \<open>NotIndexedError\<close>: raised by \<^verbatim>\<open>get_index_set_except\<close>;
  \<^item> \<open>MissingSchemeError\<close>: the \<^verbatim>\<open>KeyError\<close> of \<^verbatim>\<open>get_discretization_info()['scheme']\<close>;
  \<^item> \<open>EmptySetError\<close>: \<^verbatim>\<open>first()\<close> of a set without members;
  \<^item> \<open>SolverError\<close>: whatever the solver raises.
\<close>

datatype error =
    InvalidPointError
  | MissingIndexError
  | UnsupportedNestingError
  | UnsupportedSchemeError
  | NotIndexedError
  | MissingSchemeError
  | EmptySetError
  | SolverError

text \<open>
  The static part of a component: its kind, its name, its declared index-dimension
  tuple, the indices of its data in iteration order, and the chain of block data that
  contain it, innermost first (what \<^verbatim>\<open>parent_block()\<close> returns, repeatedly).
\<close>

record 'v component =
  ctype :: ctype
  cname :: string
  index_sets :: "setid list"
  data_keys :: "'v index list"
  enclosing :: "'v did list"

text \<open>
  One ComponentData: the activation flag and, for a constraint, the values of body and
  bounds (taken as real numbers; a block's data does not use them).
\<close>

record cdata =
  active :: bool
  body :: real
  lower :: real
  upper :: real

text \<open>
  The block that is searched: its components in the order the traversal meets them
  (a component met along two reference paths is listed twice), the components, the
  members of every index set in order, and the discretization information of every set.
  The block is a top-level block. The core never creates or destroys a component, so
  this part is not threaded through the calls.
\<close>

record 'v model =
  comp_ids :: "cid list"
  component :: "cid \<Rightarrow> 'v component"
  members :: "setid \<Rightarrow> 'v list"
  disc_info :: "setid \<Rightarrow> (string \<rightharpoonup> string)"

text \<open>
  The mutable part: the activation flag of every component (the container's own
  flag), the data store, and what has been printed.
\<close>

record 'v state =
  cactive :: "cid \<Rightarrow> bool"
  cdata :: "'v did \<rightharpoonup> cdata"
  stdout :: "(string \<times> 'v index) list"

section \<open>The collaborators\<close>

text \<open>
  Modelled from the spec: \<^verbatim>\<open>is_explicitly_indexed_by\<close> of \<^verbatim>\<open>pyomo.dae.set_utils\<close>,
  which is not among the sources. Section 4.2: true iff the target set is one of the
  component's own declared index dimensions.
\<close>

definition is_explicitly_indexed_by :: "'v component \<Rightarrow> setid \<Rightarrow> bool" where
  "is_explicitly_indexed_by co cset = (cset \<in> set (index_sets co))"

text \<open>
  Modelled from the spec: \<^verbatim>\<open>is_in_block_indexed_by\<close> of \<^verbatim>\<open>pyomo.dae.set_utils\<close>.
  Section 4.2: true iff some strict ancestor block is explicitly indexed by the target
  set, the component living inside a data instance of that ancestor.
\<close>

definition is_in_block_indexed_by :: "'v model \<Rightarrow> 'v component \<Rightarrow> setid \<Rightarrow> bool" where
  "is_in_block_indexed_by m co cset =
     list_ex (\<lambda>d. is_explicitly_indexed_by (component m (fst d)) cset) (enclosing co)"

text \<open>
  Modelled from the spec: \<^verbatim>\<open>get_index_set_except\<close> of \<^verbatim>\<open>pyomo.dae.set_utils\<close>.
  Section 4.1: the product of all dimensions but the target set, in declared order, and
  the function that puts a value of the target set back at its slot. With no other
  dimension the product is the one empty index and the function returns the bare value;
  with one it returns a pair; with more the flattened tuple. It fails when the target
  set is not in the tuple or is there more than once.
\<close>

fun find_index :: "'a \<Rightarrow> 'a list \<Rightarrow> nat" where
  "find_index x [] = 0"
| "find_index x (y # ys) = (if x = y then 0 else Suc (find_index x ys))"

definition index_getter :: "nat \<Rightarrow> 'v index \<Rightarrow> 'v \<Rightarrow> 'v index" where
  "index_getter loc other_index target_value =
     take loc other_index @ [target_value] @ drop loc other_index"

definition get_index_set_except ::
  "'v model \<Rightarrow> 'v component \<Rightarrow> setid \<Rightarrow>
   error + ('v index list \<times> ('v index \<Rightarrow> 'v \<Rightarrow> 'v index))" where
  "get_index_set_except m co cset =
     (if count_list (index_sets co) cset \<noteq> 1 then Inl NotIndexedError
      else Inr (product_lists (map (members m) (removeAll cset (index_sets co))),
                index_getter (find_index cset (index_sets co))))"

text \<open>
  Modelled from the spec: \<^verbatim>\<open>component_objects(ctypes, active=True)\<close> of the block.
  Section 4.3: the active components of the given kinds reachable from the root. A
  component is reached when its own flag is set and every block data around it exists
  and is active. The generator is taken as the list it yields on the state at the start
  of the loop.
\<close>

definition data_active :: "'v state \<Rightarrow> 'v did \<Rightarrow> bool" where
  "data_active s d = (case cdata s d of None \<Rightarrow> False | Some cd \<Rightarrow> active cd)"

definition component_objects :: "'v model \<Rightarrow> 'v state \<Rightarrow> ctype list \<Rightarrow> cid list" where
  "component_objects m s ctypes =
     filter (\<lambda>c. ctype (component m c) \<in> set ctypes \<and> cactive s c \<and>
                 list_all (data_active s) (enclosing (component m c)))
            (comp_ids m)"

text \<open>
  Modelled from the spec: \<^verbatim>\<open>blkdata.component_data_objects(Constraint, active=True)\<close>.
  Sections 4.5 and 6: the active constraint data inside one block data, those of its
  active sub-blocks included.
\<close>

definition component_data_objects ::
  "'v model \<Rightarrow> 'v state \<Rightarrow> 'v did \<Rightarrow> ('v did \<times> cdata) list" where
  "component_data_objects m s blkdata =
     concat (map (\<lambda>c. concat (map (\<lambda>i. case cdata s (c, i) of
                                          None \<Rightarrow> []
                                        | Some cd \<Rightarrow> if active cd then [((c, i), cd)] else [])
                                 (data_keys (component m c))))
       (filter (\<lambda>c. ctype (component m c) = Constraint \<and> cactive s c \<and>
                    blkdata \<in> set (enclosing (component m c)) \<and>
                    list_all (data_active s)
                      (takeWhile (\<lambda>d. d \<noteq> blkdata) (enclosing (component m c))))
               (comp_ids m)))"

text \<open>
  Modelled from the spec: \<^verbatim>\<open>first()\<close> of an ordered set (section 3); a set without
  members has no first one.
\<close>

definition first :: "'a list \<Rightarrow> error + 'a" where
  "first xs = (case xs of [] \<Rightarrow> Inl EmptySetError | x # _ \<Rightarrow> Inr x)"

section \<open>The point deactivator\<close>

text \<open>
  \<^verbatim>\<open>index_warning(name, index)\<close> formats the two into one line; the line is kept as the
  pair of its arguments.
\<close>

definition index_warning :: "string \<Rightarrow> 'v index \<Rightarrow> string \<times> 'v index" where
  "index_warning name index = (name, index)"

definition print :: "'v state \<Rightarrow> string \<times> 'v index \<Rightarrow> 'v state" where
  "print s line = s\<lparr>stdout := stdout s @ [line]\<rparr>"

text \<open>\<^verbatim>\<open>data.deactivate()\<close> and \<^verbatim>\<open>data.activate()\<close> set the flag of one data object.\<close>

definition set_active :: "bool \<Rightarrow> 'v state \<Rightarrow> 'v did \<Rightarrow> 'v state" where
  "set_active b s d = s\<lparr>cdata := (cdata s)(d := map_option (\<lambda>cd. cd\<lparr>active := b\<rparr>) (cdata s d))\<rparr>"

abbreviation deactivate :: "'v state \<Rightarrow> 'v did \<Rightarrow> 'v state" where
  "deactivate \<equiv> set_active False"

abbreviation activate :: "'v state \<Rightarrow> 'v did \<Rightarrow> 'v state" where
  "activate \<equiv> set_active True"

text \<open>\<^verbatim>\<open>deactivated[pt].append(x)\<close>; every point of the loop is a key of the dictionary.\<close>

definition append_at :: "('v \<rightharpoonup> 'v did list) \<Rightarrow> 'v \<Rightarrow> 'v did \<Rightarrow> ('v \<rightharpoonup> 'v did list)" where
  "append_at deactivated pt x =
     deactivated(pt \<mapsto> (case deactivated pt of None \<Rightarrow> [x] | Some l \<Rightarrow> l @ [x]))"

text \<open>
  The body of the innermost loop (lines 61 to 71): the \<^verbatim>\<open>try\<close> block and its
  \<^verbatim>\<open>except KeyError\<close>. An exception leaves the state as it is at that moment.
\<close>

definition deactivate_at_index ::
  "'v state \<Rightarrow> ('v \<rightharpoonup> 'v did list) \<Rightarrow> string \<Rightarrow> 'v did \<Rightarrow> 'v \<Rightarrow> bool \<Rightarrow> bool \<Rightarrow>
   'v state \<times> (error + ('v \<rightharpoonup> 'v did list))" where
  "deactivate_at_index s deactivated name x pt allow_skip suppress_warnings =
     (case cdata s x of
        Some cd \<Rightarrow> (deactivate s x, Inr (append_at deactivated pt x))
      | None \<Rightarrow>
          (let s' = (if \<not> suppress_warnings then print s (index_warning name (snd x)) else s)
           in if \<not> allow_skip then (s', Inl MissingIndexError) else (s', Inr deactivated)))"

text \<open>\<^verbatim>\<open>for pt in pts\<close> (line 60).\<close>

fun deactivate_points ::
  "'v state \<Rightarrow> ('v \<rightharpoonup> 'v did list) \<Rightarrow> string \<Rightarrow> cid \<Rightarrow> ('v index \<Rightarrow> 'v \<Rightarrow> 'v index) \<Rightarrow>
   'v index \<Rightarrow> 'v list \<Rightarrow> bool \<Rightarrow> bool \<Rightarrow> 'v state \<times> (error + ('v \<rightharpoonup> 'v did list))" where
  "deactivate_points s deactivated name c getter non_cset_index [] a w = (s, Inr deactivated)"
| "deactivate_points s deactivated name c getter non_cset_index (pt # pts) a w =
     (case deactivate_at_index s deactivated name (c, getter non_cset_index pt) pt a w of
        (s', Inl e) \<Rightarrow> (s', Inl e)
      | (s', Inr deactivated') \<Rightarrow>
          deactivate_points s' deactivated' name c getter non_cset_index pts a w)"

text \<open>\<^verbatim>\<open>for non_cset_index in non_cset_set\<close> (line 59).\<close>

fun deactivate_indices ::
  "'v state \<Rightarrow> ('v \<rightharpoonup> 'v did list) \<Rightarrow> string \<Rightarrow> cid \<Rightarrow> ('v index \<Rightarrow> 'v \<Rightarrow> 'v index) \<Rightarrow>
   'v index list \<Rightarrow> 'v list \<Rightarrow> bool \<Rightarrow> bool \<Rightarrow> 'v state \<times> (error + ('v \<rightharpoonup> 'v did list))" where
  "deactivate_indices s deactivated name c getter [] pts a w = (s, Inr deactivated)"
| "deactivate_indices s deactivated name c getter (non_cset_index # rest) pts a w =
     (case deactivate_points s deactivated name c getter non_cset_index pts a w of
        (s', Inl e) \<Rightarrow> (s', Inl e)
      | (s', Inr deactivated') \<Rightarrow>
          deactivate_indices s' deactivated' name c getter rest pts a w)"

text \<open>
  \<^verbatim>\<open>for comp in b.component_objects([Block, Constraint], active=True)\<close> (lines 46 to
  71), with the set of visited identities.
\<close>

fun deactivate_components ::
  "'v model \<Rightarrow> 'v state \<Rightarrow> ('v \<rightharpoonup> 'v did list) \<Rightarrow> cid set \<Rightarrow> cid list \<Rightarrow> setid \<Rightarrow>
   'v list \<Rightarrow> bool \<Rightarrow> bool \<Rightarrow> 'v state \<times> (error + ('v \<rightharpoonup> 'v did list))" where
  "deactivate_components m s deactivated visited [] cset pts a w = (s, Inr deactivated)"
| "deactivate_components m s deactivated visited (c # comps) cset pts a w =
     (if c \<in> visited then deactivate_components m s deactivated visited comps cset pts a w
      else if is_explicitly_indexed_by (component m c) cset \<and>
              \<not> is_in_block_indexed_by m (component m c) cset
      then (case get_index_set_except m (component m c) cset of
              Inl e \<Rightarrow> (s, Inl e)
            | Inr (non_cset_set, getter) \<Rightarrow>
                (case deactivate_indices s deactivated (cname (component m c)) c getter
                        non_cset_set pts a w of
                   (s', Inl e) \<Rightarrow> (s', Inl e)
                 | (s', Inr deactivated') \<Rightarrow>
                     deactivate_components m s' deactivated' (insert c visited) comps
                       cset pts a w))
      else deactivate_components m s deactivated (insert c visited) comps cset pts a w)"

text \<open>The argument \<^verbatim>\<open>pts\<close>: a value, or a list of values.\<close>

datatype 'v pts = Point 'v | Points "'v list"

fun as_list :: "'v pts \<Rightarrow> 'v list" where
  "as_list (Point pt) = [pt]"
| "as_list (Points pts) = pts"

definition deactivate_model_at ::
  "'v model \<Rightarrow> 'v state \<Rightarrow> setid \<Rightarrow> 'v pts \<Rightarrow> bool \<Rightarrow> bool \<Rightarrow>
   'v state \<times> (error + ('v \<rightharpoonup> 'v did list))" where
  "deactivate_model_at b s cset pts allow_skip suppress_warnings =
     (let pts = as_list pts in
      if list_ex (\<lambda>pt. pt \<notin> set (members b cset)) pts then (s, Inl InvalidPointError)
      else deactivate_components b s (\<lambda>pt. if pt \<in> set pts then Some [] else None) {}
             (component_objects b s [Block, Constraint]) cset pts
             allow_skip suppress_warnings)"

section \<open>The initial-consistency checker\<close>

text \<open>The test of lines 114 to 115 and 136 to 137.\<close>

definition violated :: "real \<Rightarrow> cdata \<Rightarrow> bool" where
  "violated tol condata =
     (body condata - upper condata > tol \<or> lower condata - body condata > tol)"

text \<open>\<^verbatim>\<open>inconsistent.add(condata)\<close> on a ComponentSet, which keeps insertion order.\<close>

definition add_component :: "'v did list \<Rightarrow> 'v did \<Rightarrow> 'v did list" where
  "add_component inconsistent x = (if x \<in> set inconsistent then inconsistent else inconsistent @ [x])"

text \<open>\<^verbatim>\<open>for non_time_index in non_time_set\<close> of the constraint loop (lines 103 to 116).\<close>

fun check_indices ::
  "'v state \<Rightarrow> 'v did list \<Rightarrow> string \<Rightarrow> cid \<Rightarrow> ('v index \<Rightarrow> 'v \<Rightarrow> 'v index) \<Rightarrow>
   'v index list \<Rightarrow> 'v \<Rightarrow> real \<Rightarrow> bool \<Rightarrow> bool \<Rightarrow> 'v state \<times> (error + 'v did list)" where
  "check_indices s inconsistent name con getter [] t0 tol a w = (s, Inr inconsistent)"
| "check_indices s inconsistent name con getter (non_time_index # rest) t0 tol a w =
     (let index = getter non_time_index t0 in
      case cdata s (con, index) of
        None \<Rightarrow>
          (let s' = (if \<not> w then print s (index_warning name index) else s)
           in if \<not> a then (s', Inl MissingIndexError)
              else check_indices s' inconsistent name con getter rest t0 tol a w)
      | Some condata \<Rightarrow>
          check_indices s
            (if violated tol condata then add_component inconsistent (con, index)
             else inconsistent)
            name con getter rest t0 tol a w)"

text \<open>\<^verbatim>\<open>for con in model.component_objects(Constraint, active=True)\<close> (lines 95 to 116).\<close>

fun check_constraints ::
  "'v model \<Rightarrow> 'v state \<Rightarrow> 'v did list \<Rightarrow> cid list \<Rightarrow> setid \<Rightarrow> 'v \<Rightarrow> real \<Rightarrow>
   bool \<Rightarrow> bool \<Rightarrow> 'v state \<times> (error + 'v did list)" where
  "check_constraints m s inconsistent [] time t0 tol a w = (s, Inr inconsistent)"
| "check_constraints m s inconsistent (con # cons) time t0 tol a w =
     (if \<not> is_explicitly_indexed_by (component m con) time
      then check_constraints m s inconsistent cons time t0 tol a w
      else if is_in_block_indexed_by m (component m con) time
      then check_constraints m s inconsistent cons time t0 tol a w
      else (case get_index_set_except m (component m con) time of
              Inl e \<Rightarrow> (s, Inl e)
            | Inr (non_time_set, getter) \<Rightarrow>
                (case check_indices s inconsistent (cname (component m con)) con getter
                        non_time_set t0 tol a w of
                   (s', Inl e) \<Rightarrow> (s', Inl e)
                 | (s', Inr inconsistent') \<Rightarrow>
                     check_constraints m s' inconsistent' cons time t0 tol a w)))"

text \<open>
  \<^verbatim>\<open>for condata in blkdata.component_data_objects(Constraint, active=True)\<close> (lines
  134 to 143).
\<close>

fun check_block_data ::
  "'v did list \<Rightarrow> ('v did \<times> cdata) list \<Rightarrow> real \<Rightarrow> error + 'v did list" where
  "check_block_data inconsistent [] tol = Inr inconsistent"
| "check_block_data inconsistent ((x, condata) # rest) tol =
     (if violated tol condata
      then (if x \<in> set inconsistent then Inl UnsupportedNestingError
            else check_block_data (add_component inconsistent x) rest tol)
      else check_block_data inconsistent rest tol)"

text \<open>
  \<^verbatim>\<open>for non_time_index in non_time_set\<close> of the block loop (lines 131 to 143); the
  lookup \<^verbatim>\<open>blk[index]\<close> is not guarded.
\<close>

fun check_block_indices ::
  "'v model \<Rightarrow> 'v state \<Rightarrow> 'v did list \<Rightarrow> cid \<Rightarrow> ('v index \<Rightarrow> 'v \<Rightarrow> 'v index) \<Rightarrow>
   'v index list \<Rightarrow> 'v \<Rightarrow> real \<Rightarrow> error + 'v did list" where
  "check_block_indices m s inconsistent blk getter [] t0 tol = Inr inconsistent"
| "check_block_indices m s inconsistent blk getter (non_time_index # rest) t0 tol =
     (let index = getter non_time_index t0 in
      case cdata s (blk, index) of
        None \<Rightarrow> Inl MissingIndexError
      | Some blkdata \<Rightarrow>
          (case check_block_data inconsistent (component_data_objects m s (blk, index)) tol of
             Inl e \<Rightarrow> Inl e
           | Inr inconsistent' \<Rightarrow>
               check_block_indices m s inconsistent' blk getter rest t0 tol))"

text \<open>\<^verbatim>\<open>for blk in model.component_objects(Block, active=True)\<close> (lines 118 to 143).\<close>

fun check_blocks ::
  "'v model \<Rightarrow> 'v state \<Rightarrow> 'v did list \<Rightarrow> cid list \<Rightarrow> setid \<Rightarrow> 'v \<Rightarrow> real \<Rightarrow>
   error + 'v did list" where
  "check_blocks m s inconsistent [] time t0 tol = Inr inconsistent"
| "check_blocks m s inconsistent (blk # blks) time t0 tol =
     (if \<not> is_explicitly_indexed_by (component m blk) time
      then check_blocks m s inconsistent blks time t0 tol
      else if is_in_block_indexed_by m (component m blk) time
      then check_blocks m s inconsistent blks time t0 tol
      else (case get_index_set_except m (component m blk) time of
              Inl e \<Rightarrow> Inl e
            | Inr (non_time_set, getter) \<Rightarrow>
                (case check_block_indices m s inconsistent blk getter non_time_set t0 tol of
                   Inl e \<Rightarrow> Inl e
                 | Inr inconsistent' \<Rightarrow> check_blocks m s inconsistent' blks time t0 tol)))"

text \<open>Lines 91 to 92: \<^verbatim>\<open>t0\<close> defaults to the first point of the set.\<close>

definition default_t0 :: "'v model \<Rightarrow> setid \<Rightarrow> 'v option \<Rightarrow> error + 'v" where
  "default_t0 model time t0 =
     (case t0 of None \<Rightarrow> first (members model time) | Some t \<Rightarrow> Inr t)"

definition get_inconsistent_initial_conditions ::
  "'v model \<Rightarrow> 'v state \<Rightarrow> setid \<Rightarrow> real \<Rightarrow> 'v option \<Rightarrow> bool \<Rightarrow> bool \<Rightarrow>
   'v state \<times> (error + 'v did list)" where
  "get_inconsistent_initial_conditions model s time tol t0 allow_skip suppress_warnings =
     (case default_t0 model time t0 of
        Inl e \<Rightarrow> (s, Inl e)
      | Inr t0 \<Rightarrow>
          (case check_constraints model s [] (component_objects model s [Constraint])
                  time t0 tol allow_skip suppress_warnings of
             (s', Inl e) \<Rightarrow> (s', Inl e)
           | (s', Inr inconsistent) \<Rightarrow>
               (s', check_blocks model s' inconsistent (component_objects model s' [Block])
                      time t0 tol)))"

section \<open>The transaction orchestrator\<close>

text \<open>\<^verbatim>\<open>for comp in deactivated_dict[t]: comp.activate()\<close> (lines 187 to 188).\<close>

fun activate_all :: "'v state \<Rightarrow> 'v did list \<Rightarrow> 'v state" where
  "activate_all s [] = s"
| "activate_all s (x # xs) = activate_all (activate s x) xs"

text \<open>\<^verbatim>\<open>for t in timelist\<close> (lines 186 to 188).\<close>

fun reactivate :: "'v state \<Rightarrow> ('v \<rightharpoonup> 'v did list) \<Rightarrow> 'v list \<Rightarrow> 'v state \<times> error option" where
  "reactivate s deactivated_dict [] = (s, None)"
| "reactivate s deactivated_dict (t # timelist) =
     (case deactivated_dict t of
        None \<Rightarrow> (s, Some MissingIndexError)
      | Some l \<Rightarrow> reactivate (activate_all s l) deactivated_dict timelist)"

text \<open>
  The solver is a parameter: \<^verbatim>\<open>solver.solve(model)\<close> may change the state and returns
  its result, or raises (\<open>None\<close>).
\<close>

type_synonym ('v, 'r) solver = "'v model \<Rightarrow> 'v state \<Rightarrow> 'v state \<times> 'r option"

definition solve_consistent_initial_conditions ::
  "'v model \<Rightarrow> 'v state \<Rightarrow> setid \<Rightarrow> ('v, 'r) solver \<Rightarrow> 'v state \<times> (error + 'r)" where
  "solve_consistent_initial_conditions model s time solver =
     (case disc_info model time ''scheme'' of
        None \<Rightarrow> (s, Inl MissingSchemeError)
      | Some scheme \<Rightarrow>
          if scheme \<noteq> ''LAGRANGE-RADAU'' \<and> scheme \<noteq> ''BACKWARD Difference''
          then (s, Inl UnsupportedSchemeError)
          else (case first (members model time) of
                  Inl e \<Rightarrow> (s, Inl e)
                | Inr t0 \<Rightarrow>
                    (let timelist = tl (members model time) in
                     case deactivate_model_at model s time (Points timelist) True False of
                       (s1, Inl e) \<Rightarrow> (s1, Inl e)
                     | (s1, Inr deactivated_dict) \<Rightarrow>
                         (case solver model s1 of
                            (s2, None) \<Rightarrow> (s2, Inl SolverError)
                          | (s2, Some result) \<Rightarrow>
                              (case reactivate s2 deactivated_dict timelist of
                                 (s3, Some e) \<Rightarrow> (s3, Inl e)
                               | (s3, None) \<Rightarrow> (s3, Inr result))))))"

section \<open>The order of the lookups\<close>

text \<open>
  The three loops of \<^verbatim>\<open>deactivate_model_at\<close> make their lookups in one fixed order,
  which depends on the model and on the components met, not on the activation flags
  that the loops change. An event is one lookup \<^verbatim>\<open>comp[index]\<close> for a point, or the
  failure of \<^verbatim>\<open>get_index_set_except\<close> for a component.
\<close>

datatype 'v event = Attempt 'v string "'v did" | Raise error

definition eligible :: "'v model \<Rightarrow> setid \<Rightarrow> cid \<Rightarrow> bool" where
  "eligible m cset c =
     (is_explicitly_indexed_by (component m c) cset \<and>
      \<not> is_in_block_indexed_by m (component m c) cset)"

text \<open>The components that pass the test of lines 49 to 51, in order.\<close>

fun first_visits :: "cid set \<Rightarrow> cid list \<Rightarrow> cid list" where
  "first_visits visited [] = []"
| "first_visits visited (c # comps) =
     (if c \<in> visited then first_visits visited comps
      else c # first_visits (insert c visited) comps)"

definition comp_events :: "'v model \<Rightarrow> setid \<Rightarrow> 'v list \<Rightarrow> cid \<Rightarrow> 'v event list" where
  "comp_events m cset pts c =
     (if eligible m cset c
      then (case get_index_set_except m (component m c) cset of
              Inl e \<Rightarrow> [Raise e]
            | Inr (non_cset_set, getter) \<Rightarrow>
                concat (map (\<lambda>i. map (\<lambda>pt. Attempt pt (cname (component m c)) (c, getter i pt)) pts)
                            non_cset_set))
      else [])"

definition events :: "'v model \<Rightarrow> 'v state \<Rightarrow> setid \<Rightarrow> 'v list \<Rightarrow> 'v event list" where
  "events m s cset pts =
     concat (map (comp_events m cset pts)
                 (first_visits {} (component_objects m s [Block, Constraint])))"

fun run_events ::
  "'v state \<Rightarrow> ('v \<rightharpoonup> 'v did list) \<Rightarrow> 'v event list \<Rightarrow> bool \<Rightarrow> bool \<Rightarrow>
   'v state \<times> (error + ('v \<rightharpoonup> 'v did list))" where
  "run_events s d [] a w = (s, Inr d)"
| "run_events s d (Raise e # es) a w = (s, Inl e)"
| "run_events s d (Attempt pt name x # es) a w =
     (case deactivate_at_index s d name x pt a w of
        (s', Inl e) \<Rightarrow> (s', Inl e)
      | (s', Inr d') \<Rightarrow> run_events s' d' es a w)"

text \<open>The data looked up by a list of events, and those looked up for one point.\<close>

fun attempted :: "'v event list \<Rightarrow> 'v did list" where
  "attempted [] = []"
| "attempted (Raise e # es) = attempted es"
| "attempted (Attempt pt name x # es) = x # attempted es"

fun attempted_at :: "'v \<Rightarrow> 'v event list \<Rightarrow> 'v did list" where
  "attempted_at p [] = []"
| "attempted_at p (Raise e # es) = attempted_at p es"
| "attempted_at p (Attempt pt name x # es) =
     (if pt = p then x # attempted_at p es else attempted_at p es)"

fun raises :: "'v event list \<Rightarrow> bool" where
  "raises [] = False"
| "raises (Raise e # es) = True"
| "raises (Attempt pt name x # es) = raises es"

text \<open>A store in which the data of a set are switched off, and one in which they are on.\<close>

definition switch :: "bool \<Rightarrow> 'v did set \<Rightarrow> ('v did \<rightharpoonup> cdata) \<Rightarrow> ('v did \<rightharpoonup> cdata)" where
  "switch b X store = (\<lambda>x. if x \<in> X then map_option (\<lambda>cd. cd\<lparr>active := b\<rparr>) (store x) else store x)"

section \<open>What the specification calls the eligible components and their data\<close>

text \<open>
  The eligible components of section 4.3: those the traversal yields that are
  explicitly and not implicitly indexed by the target set.
\<close>

definition eligible_components :: "'v model \<Rightarrow> 'v state \<Rightarrow> ctype list \<Rightarrow> setid \<Rightarrow> cid list" where
  "eligible_components m s ctypes cset = filter (eligible m cset) (component_objects m s ctypes)"

text \<open>
  The places \<open>(complement_index, point)\<close> of one component, for every complement index,
  and those of all eligible components.
\<close>

definition located_at :: "'v model \<Rightarrow> setid \<Rightarrow> cid \<Rightarrow> 'v \<Rightarrow> 'v did list" where
  "located_at m cset c pt =
     (case get_index_set_except m (component m c) cset of
        Inl e \<Rightarrow> []
      | Inr (other, combine) \<Rightarrow> map (\<lambda>i. (c, combine i pt)) other)"

definition targets :: "'v model \<Rightarrow> 'v state \<Rightarrow> setid \<Rightarrow> 'v \<Rightarrow> 'v did list" where
  "targets m s cset pt =
     concat (map (\<lambda>c. located_at m cset c pt) (eligible_components m s [Block, Constraint] cset))"

definition targets_of :: "'v model \<Rightarrow> 'v state \<Rightarrow> setid \<Rightarrow> 'v list \<Rightarrow> 'v did set" where
  "targets_of m s cset pts = (\<Union>pt \<in> set pts. set (targets m s cset pt))"


text \<open>
  The constraint data met by the block recursion of the checker, in order: those inside
  the data at \<open>t0\<close> of every eligible block.
\<close>

definition block_visits :: "'v model \<Rightarrow> 'v state \<Rightarrow> setid \<Rightarrow> 'v \<Rightarrow> ('v did \<times> cdata) list" where
  "block_visits m s time t0 =
     concat (map (\<lambda>blk. concat (map (component_data_objects m s) (located_at m time blk t0)))
                 (eligible_components m s [Block] time))"

text \<open>
  The inconsistent data among those met, in order; the data that the constraint loop of the
  checker finds inconsistent; and what it means that no data of a list was seen before.
\<close>

definition violating :: "real \<Rightarrow> ('v did \<times> cdata) list \<Rightarrow> 'v did list" where
  "violating tol xs = map fst (filter (\<lambda>y. violated tol (snd y)) xs)"

definition is_violated :: "('v did \<rightharpoonup> cdata) \<Rightarrow> real \<Rightarrow> 'v did \<Rightarrow> bool" where
  "is_violated store tol x = (case store x of None \<Rightarrow> False | Some cd \<Rightarrow> violated tol cd)"

definition constraint_findings :: "'v model \<Rightarrow> 'v state \<Rightarrow> setid \<Rightarrow> 'v \<Rightarrow> real \<Rightarrow> 'v did list" where
  "constraint_findings m s time t0 tol =
     concat (map (\<lambda>c. filter (is_violated (cdata s) tol) (located_at m time c t0))
                 (eligible_components m s [Constraint] time))"

definition fresh :: "'v did list \<Rightarrow> 'v did list \<Rightarrow> bool" where
  "fresh seen vs = (distinct vs \<and> set vs \<inter> set seen = {})"

text \<open>A lookup of \<^verbatim>\<open>deactivate_model_at\<close> that finds no data.\<close>

fun lookup_fails :: "'v state \<Rightarrow> 'v event \<Rightarrow> bool" where
  "lookup_fails s (Attempt pt name x) = (cdata s x = None)"
| "lookup_fails s (Raise e) = False"

section \<open>An example model\<close>

text \<open>
  A model over the set 0 with the points 0, 1, 2 and the set 1 with the one member 7: the
  constraint \<open>con1\<close> indexed by the set 0, the block \<open>b2\<close> indexed by both sets with a
  constraint inside \<open>b2[0,7]\<close>, the constraint \<open>con2\<close> indexed by the set 1, and the
  constraint \<open>con3\<close> indexed by the set 0 and skipped at the point 0.
\<close>

definition ex_model :: "nat model" where
  "ex_model =
     \<lparr>comp_ids = [1, 2, 3, 4, 5],
      component = (\<lambda>c.
        if c = 1 then \<lparr>ctype = Constraint, cname = ''con1'', index_sets = [0],
                       data_keys = [[0], [1], [2]], enclosing = []\<rparr>
        else if c = 2 then \<lparr>ctype = Block, cname = ''b2'', index_sets = [0, 1],
                            data_keys = [[0, 7], [1, 7], [2, 7]], enclosing = []\<rparr>
        else if c = 3 then \<lparr>ctype = Constraint, cname = ''b2[0,7].con'', index_sets = [],
                            data_keys = [[]], enclosing = [(2, [0, 7])]\<rparr>
        else if c = 4 then \<lparr>ctype = Constraint, cname = ''con2'', index_sets = [1],
                            data_keys = [[7]], enclosing = []\<rparr>
        else \<lparr>ctype = Constraint, cname = ''con3'', index_sets = [0],
              data_keys = [[1], [2]], enclosing = []\<rparr>),
      members = (\<lambda>s. if s = 0 then [0, 1, 2] else [7]),
      disc_info = (\<lambda>s. if s = 0 then [''scheme'' \<mapsto> ''LAGRANGE-RADAU''] else Map.empty)\<rparr>"

definition ex_store :: "nat did \<rightharpoonup> cdata" where
  "ex_store = map_of
     [((1, [0]), \<lparr>active = True, body = 1, lower = 5, upper = 5\<rparr>),
      ((1, [1]), \<lparr>active = True, body = 1, lower = 5, upper = 5\<rparr>),
      ((1, [2]), \<lparr>active = True, body = 1, lower = 5, upper = 5\<rparr>),
      ((2, [0, 7]), \<lparr>active = True, body = 0, lower = 0, upper = 0\<rparr>),
      ((2, [1, 7]), \<lparr>active = True, body = 0, lower = 0, upper = 0\<rparr>),
      ((2, [2, 7]), \<lparr>active = True, body = 0, lower = 0, upper = 0\<rparr>),
      ((3, []), \<lparr>active = True, body = 3, lower = 0, upper = 0\<rparr>),
      ((4, [7]), \<lparr>active = True, body = 1, lower = 1, upper = 1\<rparr>),
      ((5, [1]), \<lparr>active = True, body = 0, lower = 0, upper = 0\<rparr>),
      ((5, [2]), \<lparr>active = True, body = 0, lower = 0, upper = 0\<rparr>)]"

definition ex_state :: "nat state" where
  "ex_state = \<lparr>cactive = (\<lambda>c. True), cdata = ex_store, stdout = []\<rparr>"

text \<open>The example under a forward scheme, and a solver that changes nothing.\<close>

definition ex_forward :: "nat model" where
  "ex_forward = ex_model\<lparr>disc_info := (\<lambda>s. [''scheme'' \<mapsto> ''FORWARD Difference''])\<rparr>"

definition ex_solver :: "(nat, nat) solver" where
  "ex_solver m s = (s, Some 0)"


text \<open>
  A block \<open>b\<close> indexed by the set 0, whose data \<open>b[0]\<close> holds a block \<open>c\<close> indexed by
  the same set, whose data \<open>c[0]\<close> holds one inconsistent constraint.
\<close>

definition nested_model :: "nat model" where
  "nested_model =
     \<lparr>comp_ids = [1, 2, 3],
      component = (\<lambda>c.
        if c = 1 then \<lparr>ctype = Block, cname = ''b'', index_sets = [0],
                       data_keys = [[0], [1]], enclosing = []\<rparr>
        else if c = 2 then \<lparr>ctype = Block, cname = ''b[0].c'', index_sets = [0],
                            data_keys = [[0], [1]], enclosing = [(1, [0])]\<rparr>
        else \<lparr>ctype = Constraint, cname = ''b[0].c[0].con'', index_sets = [],
              data_keys = [[]], enclosing = [(2, [0]), (1, [0])]\<rparr>),
      members = (\<lambda>s. [0, 1]),
      disc_info = (\<lambda>s. [''scheme'' \<mapsto> ''LAGRANGE-RADAU''])\<rparr>"

definition nested_state :: "nat state" where
  "nested_state =
     \<lparr>cactive = (\<lambda>c. True),
      cdata = map_of
        [((1, [0]), \<lparr>active = True, body = 0, lower = 0, upper = 0\<rparr>),
         ((1, [1]), \<lparr>active = True, body = 0, lower = 0, upper = 0\<rparr>),
         ((2, [0]), \<lparr>active = True, body = 0, lower = 0, upper = 0\<rparr>),
         ((2, [1]), \<lparr>active = True, body = 0, lower = 0, upper = 0\<rparr>),
         ((3, []), \<lparr>active = True, body = 1, lower = 0, upper = 0\<rparr>)],
      stdout = []\<rparr>"

text \<open>The same model when the traversal meets the block \<open>b\<close> along two reference paths.\<close>

definition aliased_model :: "nat model" where
  "aliased_model = nested_model\<lparr>comp_ids := [1, 1, 2, 3]\<rparr>"

section \<open>The state after a call\<close>

lemma cdata_set_active:
  "cdata (set_active b s x) = (cdata s)(x := map_option (\<lambda>cd. cd\<lparr>active := b\<rparr>) (cdata s x))"
  by (simp add: set_active_def)

lemma cactive_set_active: "cactive (set_active b s x) = cactive s"
  by (simp add: set_active_def)

lemma cdata_print: "cdata (print s l) = cdata s"
  by (simp add: print_def)

lemma cactive_print: "cactive (print s l) = cactive s"
  by (simp add: print_def)

lemma switch_None: "(switch b X f x = None) = (f x = None)"
  by (simp add: switch_def)

lemma switch_switch: "switch b X (switch b Y f) = switch b (X \<union> Y) f"
  by (rule ext) (auto simp: switch_def option.map_comp o_def)

lemma switch_single_upd:
  "f(x := map_option (\<lambda>cd. cd\<lparr>active := b\<rparr>) (f x)) = switch b {x} f"
  by (rule ext) (simp add: switch_def)

lemma switch_empty: "switch b {} f = f"
  by (simp add: switch_def)

lemma switch_insert_None: "f x = None \<Longrightarrow> switch b (insert x X) f = switch b X f"
  by (rule ext) (auto simp: switch_def)

lemma deactivate_at_index_Inr:
  assumes "deactivate_at_index s d name x pt a w = (s1, Inr d1)"
  shows "cdata s1 = switch False {x} (cdata s)"
    and "cactive s1 = cactive s"
    and "\<not> a \<Longrightarrow> cdata s x \<noteq> None"
    and "d1 = (if cdata s x = None then d else append_at d pt x)"
  using assms
  by (auto simp: deactivate_at_index_def Let_def cdata_set_active cactive_set_active
        cdata_print cactive_print switch_def fun_eq_iff
      split: option.splits if_splits)

lemma run_events_Inr:
  "run_events s d es a w = (s', Inr d') \<Longrightarrow>
     cdata s' = switch False (set (attempted es)) (cdata s) \<and> cactive s' = cactive s \<and>
     \<not> raises es \<and> (\<not> a \<longrightarrow> (\<forall>x \<in> set (attempted es). cdata s x \<noteq> None))"
proof (induction es arbitrary: s d)
  case Nil
  then show ?case by (simp add: switch_empty)
next
  case (Cons e es)
  show ?case
  proof (cases e)
    case (Raise err)
    with Cons.prems show ?thesis by simp
  next
    case (Attempt pt name x)
    with Cons.prems obtain s1 d1 where
      step: "deactivate_at_index s d name x pt a w = (s1, Inr d1)" and
      rest: "run_events s1 d1 es a w = (s', Inr d')"
      by (auto split: prod.splits sum.splits)
    note ih = Cons.IH[OF rest]
    note st = deactivate_at_index_Inr[OF step]
    have 1: "cdata s' = switch False (insert x (set (attempted es))) (cdata s)"
      using ih st(1) by (simp add: switch_switch)
    have 2: "\<not> a \<longrightarrow> (\<forall>y \<in> set (attempted es). cdata s y \<noteq> None)"
      using ih st(1) by (simp add: switch_None)
    show ?thesis using 1 2 ih st(2,3) Attempt by auto
  qed
qed

lemma run_events_recorded:
  "run_events s d es a w = (s', Inr d') \<Longrightarrow>
     d' p = (let r = filter (\<lambda>x. cdata s x \<noteq> None) (attempted_at p es) in
             if r = [] then d p else Some ((case d p of None \<Rightarrow> [] | Some l \<Rightarrow> l) @ r))"
proof (induction es arbitrary: s d)
  case Nil
  then show ?case by simp
next
  case (Cons e es)
  show ?case
  proof (cases e)
    case (Raise err)
    with Cons.prems show ?thesis by simp
  next
    case (Attempt pt name x)
    with Cons.prems obtain s1 d1 where
      step: "deactivate_at_index s d name x pt a w = (s1, Inr d1)" and
      rest: "run_events s1 d1 es a w = (s', Inr d')"
      by (auto split: prod.splits sum.splits)
    note st = deactivate_at_index_Inr[OF step]
    have same: "filter (\<lambda>y. cdata s1 y \<noteq> None) (attempted_at p es) =
                filter (\<lambda>y. cdata s y \<noteq> None) (attempted_at p es)"
      using st(1) by (simp add: switch_None)
    define r where "r = filter (\<lambda>y. cdata s y \<noteq> None) (attempted_at p es)"
    have ih: "d' p = (if r = [] then d1 p
                      else Some ((case d1 p of None \<Rightarrow> [] | Some l \<Rightarrow> l) @ r))"
      using Cons.IH[OF rest] by (simp only: same r_def Let_def)
    have goal: "filter (\<lambda>y. cdata s y \<noteq> None) (attempted_at p (e # es)) =
                (if pt = p \<and> cdata s x \<noteq> None then x # r else r)"
      using Attempt by (simp add: r_def)
    show ?thesis
    proof (cases "cdata s x = None")
      case True
      then show ?thesis using ih st(4) goal by (simp add: Let_def)
    next
      case False
      then have d1: "d1 = append_at d pt x" using st(4) by (cases "cdata s x") auto
      show ?thesis
        using ih goal False
        by (cases "pt = p"; cases "d p"; cases "r = []")
           (simp_all add: d1 Let_def append_at_def)
    qed
  qed
qed

lemma run_events_returns:
  "\<not> raises es \<Longrightarrow> a \<or> (\<forall>x \<in> set (attempted es). cdata s x \<noteq> None) \<Longrightarrow>
     \<exists>s' d'. run_events s d es a w = (s', Inr d')"
proof (induction es arbitrary: s d)
  case Nil
  then show ?case by simp
next
  case (Cons e es)
  show ?case
  proof (cases e)
    case (Raise err)
    with Cons.prems show ?thesis by simp
  next
    case (Attempt pt name x)
    from Cons.prems Attempt obtain s1 d1 where
      step: "deactivate_at_index s d name x pt a w = (s1, Inr d1)"
      by (cases "cdata s x") (auto simp: deactivate_at_index_def Let_def)
    note st = deactivate_at_index_Inr[OF step]
    have "a \<or> (\<forall>y \<in> set (attempted es). cdata s1 y \<noteq> None)"
      using Cons.prems(2) Attempt st(1) by (auto simp: switch_None)
    moreover have "\<not> raises es" using Cons.prems(1) Attempt by simp
    ultimately obtain s' d' where "run_events s1 d1 es a w = (s', Inr d')"
      using Cons.IH by blast
    then show ?thesis using step Attempt by simp
  qed
qed

lemma run_events_append:
  "run_events s d (es @ fs) a w =
     (case run_events s d es a w of
        (s', Inl e) \<Rightarrow> (s', Inl e)
      | (s', Inr d') \<Rightarrow> run_events s' d' fs a w)"
proof (induction es arbitrary: s d)
  case Nil
  then show ?case by simp
next
  case (Cons e es)
  then show ?case by (cases e) (auto split: prod.splits sum.splits)
qed

lemma deactivate_points_run:
  "deactivate_points s d name c g i pts a w =
     run_events s d (map (\<lambda>pt. Attempt pt name (c, g i pt)) pts) a w"
  by (induction pts arbitrary: s d) (auto split: prod.splits sum.splits)

lemma deactivate_indices_run:
  "deactivate_indices s d name c g is pts a w =
     run_events s d (concat (map (\<lambda>i. map (\<lambda>pt. Attempt pt name (c, g i pt)) pts) is)) a w"
  by (induction "is" arbitrary: s d)
     (auto simp: run_events_append deactivate_points_run split: prod.splits sum.splits)

lemma deactivate_components_run:
  "deactivate_components m s d V cs cset pts a w =
     run_events s d (concat (map (comp_events m cset pts) (first_visits V cs))) a w"
proof (induction cs arbitrary: s d V)
  case Nil
  then show ?case by simp
next
  case (Cons c cs)
  show ?case
  proof (cases "c \<in> V")
    case True
    then show ?thesis using Cons.IH by simp
  next
    case False
    then have fv: "first_visits V (c # cs) = c # first_visits (insert c V) cs" by simp
    show ?thesis
    proof (cases "eligible m cset c")
      case ne: False
      have ce: "comp_events m cset pts c = []"
        using ne by (simp add: comp_events_def)
      have step: "deactivate_components m s d V (c # cs) cset pts a w =
                  deactivate_components m s d (insert c V) cs cset pts a w"
        using False ne by (auto simp: eligible_def)
      show ?thesis unfolding step fv by (simp add: ce Cons.IH)
    next
      case el: True
      show ?thesis
      proof (cases "get_index_set_except m (component m c) cset")
        case (Inl e)
        have ce: "comp_events m cset pts c = [Raise e]"
          using el Inl by (simp add: comp_events_def)
        have step: "deactivate_components m s d V (c # cs) cset pts a w = (s, Inl e)"
          using False el Inl by (simp add: eligible_def)
        show ?thesis unfolding step fv by (simp add: ce)
      next
        case (Inr p)
        obtain se g where p: "p = (se, g)" by (cases p)
        have ce: "comp_events m cset pts c =
            concat (map (\<lambda>i. map (\<lambda>pt. Attempt pt (cname (component m c)) (c, g i pt)) pts) se)"
          using el Inr p by (simp add: comp_events_def)
        have step: "deactivate_components m s d V (c # cs) cset pts a w =
            (case deactivate_indices s d (cname (component m c)) c g se pts a w of
               (s', Inl e) \<Rightarrow> (s', Inl e)
             | (s', Inr d') \<Rightarrow> deactivate_components m s' d' (insert c V) cs cset pts a w)"
          using False el Inr p by (simp add: eligible_def)
        show ?thesis unfolding step fv
          by (simp add: ce run_events_append deactivate_indices_run Cons.IH
                split: prod.splits sum.splits)
      qed
    qed
  qed
qed

lemma deactivate_model_at_run:
  "deactivate_model_at b s cset pts a w =
     (if list_ex (\<lambda>pt. pt \<notin> set (members b cset)) (as_list pts) then (s, Inl InvalidPointError)
      else run_events s (\<lambda>pt. if pt \<in> set (as_list pts) then Some [] else None)
             (events b s cset (as_list pts)) a w)"
  by (simp add: deactivate_model_at_def Let_def deactivate_components_run events_def)

lemma attempted_append: "attempted (es @ fs) = attempted es @ attempted fs"
  by (induction es rule: attempted.induct) auto

lemma attempted_at_append: "attempted_at p (es @ fs) = attempted_at p es @ attempted_at p fs"
  by (induction p es rule: attempted_at.induct) auto

lemma raises_append: "raises (es @ fs) = (raises es \<or> raises fs)"
  by (induction es rule: raises.induct) auto

lemma attempted_concat: "set (attempted (concat ess)) = (\<Union>es \<in> set ess. set (attempted es))"
  by (induction ess) (auto simp: attempted_append)

lemma attempted_at_concat:
  "set (attempted_at p (concat ess)) = (\<Union>es \<in> set ess. set (attempted_at p es))"
  by (induction ess) (auto simp: attempted_at_append)

lemma raises_concat: "raises (concat ess) = (\<exists>es \<in> set ess. raises es)"
  by (induction ess) (auto simp: raises_append)

lemma attempted_map: "attempted (map (\<lambda>pt. Attempt pt n (f pt)) pts) = map f pts"
  by (induction pts) auto

lemma attempted_at_map:
  "attempted_at p (map (\<lambda>pt. Attempt pt n (f pt)) pts) = map f (filter (\<lambda>pt. pt = p) pts)"
  by (induction pts) auto

lemma raises_map: "\<not> raises (map (\<lambda>pt. Attempt pt n (f pt)) pts)"
  by (induction pts) auto

lemma set_first_visits: "set (first_visits V cs) = set cs - V"
  by (induction cs arbitrary: V) auto

lemma attempted_comp_events:
  "set (attempted (comp_events m cset pts c)) =
     (if eligible m cset c then (\<Union>pt \<in> set pts. set (located_at m cset c pt)) else {})"
  by (auto simp: comp_events_def located_at_def attempted_concat attempted_map
      split: sum.splits)

lemma attempted_at_comp_events:
  "set (attempted_at p (comp_events m cset pts c)) =
     (if eligible m cset c \<and> p \<in> set pts then set (located_at m cset c p) else {})"
proof (cases "eligible m cset c")
  case False
  then show ?thesis by (simp add: comp_events_def)
next
  case True
  show ?thesis
  proof (cases "get_index_set_except m (component m c) cset")
    case (Inl e)
    then show ?thesis using True by (simp add: comp_events_def located_at_def)
  next
    case (Inr q)
    obtain se g where q: "q = (se, g)" by (cases q)
    have "set (attempted_at p (comp_events m cset pts c)) =
          (\<Union>i \<in> set se. set (map (\<lambda>pt. (c, g i pt)) (filter (\<lambda>pt. pt = p) pts)))"
      using True Inr q by (simp add: comp_events_def attempted_at_concat attempted_at_map)
    also have "\<dots> = (if p \<in> set pts then set (map (\<lambda>i. (c, g i p)) se) else {})"
      by auto
    finally show ?thesis using True Inr q by (simp add: located_at_def)
  qed
qed

lemma raises_comp_events:
  "raises (comp_events m cset pts c) =
     (eligible m cset c \<and> isl (get_index_set_except m (component m c) cset))"
  by (auto simp: comp_events_def raises_concat raises_map split: sum.splits)

lemma attempted_events: "set (attempted (events m s cset pts)) = targets_of m s cset pts"
  by (auto simp: events_def targets_of_def targets_def eligible_components_def
        attempted_concat attempted_comp_events set_first_visits split: if_splits)

lemma attempted_at_events:
  "set (attempted_at p (events m s cset pts)) =
     (if p \<in> set pts then set (targets m s cset p) else {})"
  by (auto simp: events_def targets_def eligible_components_def
        attempted_at_concat attempted_at_comp_events set_first_visits split: if_splits)

lemma raises_events:
  "raises (events m s cset pts) =
     (\<exists>c \<in> set (eligible_components m s [Block, Constraint] cset).
        isl (get_index_set_except m (component m c) cset))"
  by (auto simp: events_def eligible_components_def raises_concat raises_comp_events
        set_first_visits)

lemma targets_of_eligible:
  "x \<in> targets_of m s cset pts \<Longrightarrow> eligible m cset (fst x)"
  by (auto simp: targets_of_def targets_def eligible_components_def located_at_def
      split: sum.splits)

lemma deactivate_model_at_dom:
  assumes "deactivate_model_at b s cset pts a w = (s', Inr d)"
  shows "d p = (if p \<in> set (as_list pts)
                then Some (filter (\<lambda>x. cdata s x \<noteq> None) (attempted_at p (events b s cset (as_list pts))))
                else None)"
proof -
  from assms have run: "run_events s (\<lambda>pt. if pt \<in> set (as_list pts) then Some [] else None)
      (events b s cset (as_list pts)) a w = (s', Inr d)"
    by (simp add: deactivate_model_at_run split: if_splits)
  have "p \<notin> set (as_list pts) \<Longrightarrow> attempted_at p (events b s cset (as_list pts)) = []"
    using attempted_at_events[of p b s cset "as_list pts"] by simp
  then show ?thesis
    using run_events_recorded[OF run, of p] by (auto simp: Let_def)
qed

text \<open>
  Claim C1. When \<^verbatim>\<open>deactivate_model_at\<close> returns, the data store is the one it was given
  with the flag switched off at exactly the places \<open>(complement_index, point)\<close>, for every
  complement index and every requested point, of the components that the traversal yields and
  that are explicitly and not implicitly indexed by the target set; the list returned for a
  point holds exactly those of these places that have a ComponentData; and no data of a
  component inside a block indexed by the target set is touched.
\<close>

theorem deactivate_model_at_exact:
  assumes "deactivate_model_at b s cset pts allow_skip suppress_warnings = (s', Inr deactivated)"
  shows "cdata s' = switch False (targets_of b s cset (as_list pts)) (cdata s) \<and>
         (\<forall>pt \<in> set (as_list pts). \<exists>l. deactivated pt = Some l \<and>
              set l = {x \<in> set (targets b s cset pt). cdata s x \<noteq> None}) \<and>
         (\<forall>c i. is_in_block_indexed_by b (component b c) cset \<longrightarrow>
              cdata s' (c, i) = cdata s (c, i))"
proof -
  from assms have run: "run_events s (\<lambda>pt. if pt \<in> set (as_list pts) then Some [] else None)
      (events b s cset (as_list pts)) allow_skip suppress_warnings = (s', Inr deactivated)"
    by (simp add: deactivate_model_at_run split: if_splits)
  have 1: "cdata s' = switch False (targets_of b s cset (as_list pts)) (cdata s)"
    using run_events_Inr[OF run] by (simp add: attempted_events)
  have 2: "\<forall>pt \<in> set (as_list pts). \<exists>l. deactivated pt = Some l \<and>
              set l = {x \<in> set (targets b s cset pt). cdata s x \<noteq> None}"
    using deactivate_model_at_dom[OF assms] by (auto simp: attempted_at_events)
  have 3: "\<forall>c i. is_in_block_indexed_by b (component b c) cset \<longrightarrow>
              cdata s' (c, i) = cdata s (c, i)"
  proof (intro allI impI)
    fix c i
    assume ib: "is_in_block_indexed_by b (component b c) cset"
    have "(c, i) \<notin> targets_of b s cset (as_list pts)"
      using targets_of_eligible[of "(c, i)" b s cset "as_list pts"] ib
      by (auto simp: eligible_def)
    then show "cdata s' (c, i) = cdata s (c, i)" using 1 by (simp add: switch_def)
  qed
  show ?thesis using 1 2 3 by blast
qed

text \<open>
  Claim C5. When a requested point is not a member of the target set,
  \<^verbatim>\<open>deactivate_model_at\<close> raises \<open>InvalidPointError\<close> and the state is the one it was
  given: the points are validated before anything is deactivated.
\<close>

theorem deactivate_model_at_invalid_point:
  "\<exists>pt \<in> set (as_list pts). pt \<notin> set (members b cset) \<Longrightarrow>
     deactivate_model_at b s cset pts allow_skip suppress_warnings = (s, Inl InvalidPointError)"
  by (auto simp: deactivate_model_at_def Let_def list_ex_iff)

text \<open>
  Claim C7. When the scheme tag of the target set is neither \<^verbatim>\<open>LAGRANGE-RADAU\<close> nor
  \<^verbatim>\<open>BACKWARD Difference\<close>, \<^verbatim>\<open>solve_consistent_initial_conditions\<close> raises
  \<open>UnsupportedSchemeError\<close> and the state is the one it was given.
\<close>

theorem solve_unsupported_scheme:
  "disc_info model time ''scheme'' = Some scheme \<Longrightarrow>
   scheme \<noteq> ''LAGRANGE-RADAU'' \<Longrightarrow> scheme \<noteq> ''BACKWARD Difference'' \<Longrightarrow>
     solve_consistent_initial_conditions model s time solver = (s, Inl UnsupportedSchemeError)"
  by (simp add: solve_consistent_initial_conditions_def)

text \<open>
  Claim C10. A point that is not a list is treated as the list of that one point: the two
  calls are equal; the point is validated, so that a point outside the target set gives
  \<open>InvalidPointError\<close> and the given state; and when the call returns, the point is in
  the target set, the store is the given one switched off at exactly the places of the
  eligible components at that point, and the mapping returned has that point as its only
  key, with the list of the data switched off there.
\<close>

theorem deactivate_model_at_single_point:
  "deactivate_model_at b s cset (Point pt) a w = deactivate_model_at b s cset (Points [pt]) a w \<and>
   (pt \<notin> set (members b cset) \<longrightarrow>
      deactivate_model_at b s cset (Point pt) a w = (s, Inl InvalidPointError)) \<and>
   (\<forall>s' d. deactivate_model_at b s cset (Point pt) a w = (s', Inr d) \<longrightarrow>
      pt \<in> set (members b cset) \<and> dom d = {pt} \<and>
      cdata s' = switch False (set (targets b s cset pt)) (cdata s) \<and>
      (\<exists>l. d pt = Some l \<and> set l = {x \<in> set (targets b s cset pt). cdata s x \<noteq> None}))"
proof -
  have eq: "deactivate_model_at b s cset (Point pt) a w =
            deactivate_model_at b s cset (Points [pt]) a w"
    by (simp add: deactivate_model_at_def)
  have inv: "pt \<notin> set (members b cset) \<longrightarrow>
      deactivate_model_at b s cset (Point pt) a w = (s, Inl InvalidPointError)"
    by (simp add: deactivate_model_at_def)
  have ok: "pt \<in> set (members b cset) \<and> dom d = {pt} \<and>
      cdata s' = switch False (set (targets b s cset pt)) (cdata s) \<and>
      (\<exists>l. d pt = Some l \<and> set l = {x \<in> set (targets b s cset pt). cdata s x \<noteq> None})"
    if run: "deactivate_model_at b s cset (Point pt) a w = (s', Inr d)" for s' d
  proof -
    from run have valid: "pt \<in> set (members b cset)"
      and ev: "run_events s (\<lambda>p. if p \<in> set (as_list (Point pt)) then Some [] else None)
                 (events b s cset (as_list (Point pt))) a w = (s', Inr d)"
      by (auto simp: deactivate_model_at_run split: if_splits)
    have c: "cdata s' = switch False (set (targets b s cset pt)) (cdata s)"
      using run_events_Inr[OF ev] by (simp add: attempted_events targets_of_def)
    have dm: "dom d = {pt}"
      using deactivate_model_at_dom[OF run] by (auto simp: dom_def split: if_splits)
    have l: "\<exists>l. d pt = Some l \<and> set l = {x \<in> set (targets b s cset pt). cdata s x \<noteq> None}"
      using deactivate_model_at_dom[OF run, of pt] attempted_at_events[of pt b s cset "[pt]"]
      by auto
    show ?thesis using valid c dm l by blast
  qed
  show ?thesis using eq inv ok by blast
qed

lemma ex_walk: "component_objects ex_model ex_state [Block, Constraint] = [1, 2, 3, 4, 5]"
  by (simp add: component_objects_def ex_model_def ex_state_def ex_store_def data_active_def)

lemma ex_events:
  "events ex_model ex_state 0 pts =
     map (\<lambda>pt. Attempt pt ''con1'' (1, [pt])) pts @
     map (\<lambda>pt. Attempt pt ''b2'' (2, [pt, 7])) pts @
     map (\<lambda>pt. Attempt pt ''con3'' (5, [pt])) pts"
  unfolding events_def ex_walk
  by (simp add: comp_events_def eligible_def is_explicitly_indexed_by_def
        is_in_block_indexed_by_def get_index_set_except_def index_getter_def ex_model_def)

lemma ex_targets:
  "targets_of ex_model ex_state 0 pts =
     (\<lambda>pt. (1, [pt])) ` set pts \<union> (\<lambda>pt. (2, [pt, 7])) ` set pts \<union> (\<lambda>pt. (5, [pt])) ` set pts"
  unfolding attempted_events[symmetric] ex_events
  by (simp add: attempted_append attempted_map Un_assoc)

lemma ex_all_active: "\<forall>x cd. cdata ex_state x = Some cd \<longrightarrow> active cd"
  by (auto simp: ex_state_def ex_store_def split: if_splits)

lemma deactivate_model_at_returns:
  assumes "\<not> list_ex (\<lambda>pt. pt \<notin> set (members b cset)) (as_list pts)"
    and "\<not> raises (events b s cset (as_list pts))"
    and "a \<or> (\<forall>x \<in> targets_of b s cset (as_list pts). cdata s x \<noteq> None)"
  shows "\<exists>s' d. deactivate_model_at b s cset pts a w = (s', Inr d)"
  using run_events_returns[OF assms(2), of a s _ w] assms(1,3)
  by (simp add: deactivate_model_at_run attempted_events)

lemma ex_returns:
  "set pts \<subseteq> {0, 1, 2} \<Longrightarrow>
     \<exists>s' d. deactivate_model_at ex_model ex_state 0 (Points pts) True w = (s', Inr d)"
proof (rule deactivate_model_at_returns)
  assume "set pts \<subseteq> {0, 1, 2}"
  then show "\<not> list_ex (\<lambda>pt. pt \<notin> set (members ex_model 0)) (as_list (Points pts))"
    by (auto simp: list_ex_iff ex_model_def)
  show "\<not> raises (events ex_model ex_state 0 (as_list (Points pts)))"
    unfolding ex_events by (simp add: raises_append raises_map)
  show "True \<or> (\<forall>x \<in> targets_of ex_model ex_state 0 (as_list (Points pts)). cdata ex_state x \<noteq> None)"
    by simp
qed

lemma run_events_missing:
  assumes "\<not> raises es1" and "\<forall>y \<in> set (attempted es1). cdata s y \<noteq> None"
    and "cdata s x = None"
  shows "\<exists>s'. run_events s d (es1 @ Attempt pt name x # es2) False w = (s', Inl MissingIndexError) \<and>
              cdata s' = switch False (set (attempted es1)) (cdata s) \<and> cactive s' = cactive s"
proof -
  obtain s1 d1 where r: "run_events s d es1 False w = (s1, Inr d1)"
    using run_events_returns[OF assms(1), of False s d w] assms(2) by blast
  note i = run_events_Inr[OF r]
  have "cdata s1 x = None" using i assms(3) by (simp add: switch_None)
  then have "run_events s1 d1 (Attempt pt name x # es2) False w =
      ((if \<not> w then print s1 (index_warning name (snd x)) else s1), Inl MissingIndexError)"
    by (simp add: deactivate_at_index_def Let_def)
  then show ?thesis using r i
    by (simp add: run_events_append cdata_print cactive_print)
qed

lemma not_lookup_fails_attempted:
  "\<forall>e \<in> set es. \<not> lookup_fails s e \<Longrightarrow> \<forall>y \<in> set (attempted es). cdata s y \<noteq> None"
  by (induction es rule: attempted.induct) auto

lemma lookup_fails_attempted:
  "x \<in> set (attempted es) \<Longrightarrow> cdata s x = None \<Longrightarrow> \<exists>e \<in> set es. lookup_fails s e"
  by (induction es rule: attempted.induct) auto

text \<open>
  Claim C6. With \<^verbatim>\<open>allow_skip=False\<close>, valid points and an index algebra that applies to
  every eligible component, when some place \<open>(complement_index, point)\<close> of an eligible
  component has no ComponentData, the call raises \<open>MissingIndexError\<close>, and the store it
  leaves is the given one with the flag switched off at every place looked up before the
  first failing lookup: nothing is rolled back.
\<close>

theorem deactivate_model_at_missing_index:
  assumes valid: "\<forall>pt \<in> set (as_list pts). pt \<in> set (members b cset)"
    and indexed: "\<not> raises (events b s cset (as_list pts))"
    and missing: "\<exists>x \<in> targets_of b s cset (as_list pts). cdata s x = None"
  shows "snd (deactivate_model_at b s cset pts False w) = Inl MissingIndexError \<and>
         cdata (fst (deactivate_model_at b s cset pts False w)) =
           switch False
             (set (attempted (takeWhile (\<lambda>e. \<not> lookup_fails s e) (events b s cset (as_list pts)))))
             (cdata s)"
proof -
  let ?es = "events b s cset (as_list pts)"
  let ?P = "\<lambda>e. \<not> lookup_fails s e"
  from missing obtain e where "e \<in> set ?es" "lookup_fails s e"
    using lookup_fails_attempted[of _ ?es s] by (auto simp: attempted_events[symmetric])
  then have "dropWhile ?P ?es \<noteq> []" by (auto simp: dropWhile_eq_Nil_conv)
  then obtain y ys where dw: "dropWhile ?P ?es = y # ys" by (cases "dropWhile ?P ?es") auto
  then have split: "?es = takeWhile ?P ?es @ y # ys" and y: "lookup_fails s y"
    by (auto simp: dropWhile_eq_Cons_conv)
  from y obtain pt name x where yy: "y = Attempt pt name x" and x: "cdata s x = None"
    by (cases y) auto
  have clean: "\<not> raises (takeWhile ?P ?es)"
    using indexed split raises_append[of "takeWhile ?P ?es" "y # ys"] by metis
  have before: "\<forall>z \<in> set (attempted (takeWhile ?P ?es)). cdata s z \<noteq> None"
    by (rule not_lookup_fails_attempted) (auto dest: set_takeWhileD)
  obtain s' where
    "run_events s (\<lambda>pt. if pt \<in> set (as_list pts) then Some [] else None)
       (takeWhile ?P ?es @ Attempt pt name x # ys) False w = (s', Inl MissingIndexError)"
    "cdata s' = switch False (set (attempted (takeWhile ?P ?es))) (cdata s)"
    using run_events_missing[OF clean before x] by blast
  moreover have "\<not> list_ex (\<lambda>pt. pt \<notin> set (members b cset)) (as_list pts)"
    using valid by (simp add: list_ex_iff)
  ultimately show ?thesis
    using split yy by (simp add: deactivate_model_at_run)
qed

lemma data_active_switch:
  "cdata s1 = switch False T (cdata s) \<Longrightarrow> d \<notin> T \<Longrightarrow> data_active s1 d = data_active s d"
  by (simp add: data_active_def switch_def)

lemma eligible_components_stable:
  assumes c: "cdata s1 = switch False T (cdata s)" and a: "cactive s1 = cactive s"
    and T: "\<forall>x \<in> T. is_explicitly_indexed_by (component m (fst x)) cset"
  shows "eligible_components m s1 cts cset = eligible_components m s cts cset"
proof -
  have key: "list_all (data_active s1) (enclosing (component m c)) =
             list_all (data_active s) (enclosing (component m c))" if "eligible m cset c" for c
  proof -
    have "d \<notin> T" if "d \<in> set (enclosing (component m c))" for d
      using that \<open>eligible m cset c\<close> T
      by (auto simp: eligible_def is_in_block_indexed_by_def list_ex_iff)
    then show ?thesis using c by (auto simp: list_all_iff data_active_switch)
  qed
  show ?thesis
    unfolding eligible_components_def component_objects_def filter_filter
    by (rule filter_cong[OF refl]) (use key a in auto)
qed

text \<open>
  Claim C9. When a call of \<^verbatim>\<open>deactivate_model_at\<close> has returned, the same call on the
  state it left returns as well, and leaves the same activation flags.
\<close>

theorem deactivate_model_at_idempotent:
  assumes "deactivate_model_at b s cset pts a w = (s1, Inr d1)"
  shows "\<exists>s2 d2. deactivate_model_at b s1 cset pts a w = (s2, Inr d2) \<and>
                 cdata s2 = cdata s1 \<and> cactive s2 = cactive s1"
proof -
  let ?pts = "as_list pts"
  let ?T = "targets_of b s cset ?pts"
  let ?d0 = "\<lambda>pt. if pt \<in> set ?pts then Some [] else None"
  from assms have valid: "\<not> list_ex (\<lambda>pt. pt \<notin> set (members b cset)) ?pts"
    and run: "run_events s ?d0 (events b s cset ?pts) a w = (s1, Inr d1)"
    by (auto simp: deactivate_model_at_run split: if_splits)
  note r = run_events_Inr[OF run]
  have c1: "cdata s1 = switch False ?T (cdata s)" using r by (simp add: attempted_events)
  have a1: "cactive s1 = cactive s" using r by simp
  have el: "eligible_components b s1 [Block, Constraint] cset =
            eligible_components b s [Block, Constraint] cset"
    by (rule eligible_components_stable[OF c1 a1])
       (auto dest: targets_of_eligible simp: eligible_def)
  have T1: "targets_of b s1 cset ?pts = ?T"
    by (simp add: targets_of_def targets_def el)
  have nr: "\<not> raises (events b s1 cset ?pts)"
    using r by (simp add: raises_events el)
  have ex: "a \<or> (\<forall>x \<in> set (attempted (events b s1 cset ?pts)). cdata s1 x \<noteq> None)"
    using r by (auto simp: attempted_events T1 c1 switch_None)
  obtain s2 d2 where run2: "run_events s1 ?d0 (events b s1 cset ?pts) a w = (s2, Inr d2)"
    using run_events_returns[OF nr ex] by blast
  note r2 = run_events_Inr[OF run2]
  have "cdata s2 = cdata s1"
    using r2 by (simp add: attempted_events T1 c1 switch_switch)
  moreover have "cactive s2 = cactive s1" using r2 by simp
  moreover have "deactivate_model_at b s1 cset pts a w = (s2, Inr d2)"
    using valid run2 by (simp add: deactivate_model_at_run)
  ultimately show ?thesis by blast
qed

lemma cdata_activate_all: "cdata (activate_all s l) = switch True (set l) (cdata s)"
  by (induction l arbitrary: s)
     (simp_all add: switch_empty cdata_set_active switch_single_upd switch_switch)

lemma cactive_activate_all: "cactive (activate_all s l) = cactive s"
  by (induction l arbitrary: s) (simp_all add: cactive_set_active)

lemma reactivate_ok:
  "\<forall>t \<in> set ts. d t \<noteq> None \<Longrightarrow>
     \<exists>s2. reactivate s d ts = (s2, None) \<and>
          cdata s2 = switch True (\<Union>t \<in> set ts. set (the (d t))) (cdata s) \<and>
          cactive s2 = cactive s"
proof (induction ts arbitrary: s)
  case Nil
  then show ?case by (simp add: switch_empty)
next
  case (Cons t ts)
  then obtain l where l: "d t = Some l" by auto
  from Cons obtain s2 where
    "reactivate (activate_all s l) d ts = (s2, None)"
    "cdata s2 = switch True (\<Union>t \<in> set ts. set (the (d t))) (cdata (activate_all s l))"
    "cactive s2 = cactive (activate_all s l)"
    by (metis list.set_intros(2))
  then show ?case using l
    by (simp add: cdata_activate_all cactive_activate_all switch_switch Un_commute)
qed

lemma active_update_id: "active cd \<Longrightarrow> cd\<lparr>active := True\<rparr> = cd"
  by (cases cd) simp

lemma switch_restore:
  assumes "\<forall>x cd. f x = Some cd \<longrightarrow> active cd"
  shows "switch True {x \<in> T. f x \<noteq> None} (switch False T f) = f"
proof (rule ext)
  fix x
  show "switch True {x \<in> T. f x \<noteq> None} (switch False T f) x = f x"
  proof (cases "f x")
    case None
    then show ?thesis by (simp add: switch_def)
  next
    case (Some cd)
    then have "active cd" using assms by blast
    then show ?thesis using Some by (simp add: switch_def active_update_id)
  qed
qed

text \<open>
  Claim C8. On a model whose ComponentData are all active, after \<^verbatim>\<open>deactivate_model_at\<close>
  has returned, activating the data listed in the returned mapping (the loop of lines 186 to
  188) gives back the store of before the call, in which every flag is set.
\<close>

theorem deactivate_then_reactivate:
  assumes allact: "\<forall>x cd. cdata s x = Some cd \<longrightarrow> active cd"
    and run: "deactivate_model_at b s cset pts a w = (s1, Inr d)"
  shows "\<exists>s2. reactivate s1 d (as_list pts) = (s2, None) \<and> cdata s2 = cdata s \<and>
              (\<forall>x cd. cdata s2 x = Some cd \<longrightarrow> active cd)"
proof -
  let ?pts = "as_list pts"
  let ?T = "targets_of b s cset ?pts"
  from run have run': "run_events s (\<lambda>pt. if pt \<in> set ?pts then Some [] else None)
      (events b s cset ?pts) a w = (s1, Inr d)"
    by (simp add: deactivate_model_at_run split: if_splits)
  have c1: "cdata s1 = switch False ?T (cdata s)"
    using run_events_Inr[OF run'] by (simp add: attempted_events)
  have dd: "\<And>p. p \<in> set ?pts \<Longrightarrow>
      d p = Some (filter (\<lambda>x. cdata s x \<noteq> None) (attempted_at p (events b s cset ?pts)))"
    using deactivate_model_at_dom[OF run] by simp
  have R: "(\<Union>t \<in> set ?pts. set (the (d t))) = {x \<in> ?T. cdata s x \<noteq> None}"
    using dd by (auto simp: attempted_at_events targets_of_def)
  have "\<forall>t \<in> set ?pts. d t \<noteq> None" using dd by simp
  from reactivate_ok[OF this, of s1] obtain s2 where
    "reactivate s1 d ?pts = (s2, None)"
    "cdata s2 = switch True (\<Union>t \<in> set ?pts. set (the (d t))) (cdata s1)" by blast
  moreover have "switch True {x \<in> ?T. cdata s x \<noteq> None} (switch False ?T (cdata s)) = cdata s"
    by (rule switch_restore[OF allact])
  ultimately show ?thesis using allact R c1 by auto
qed

text \<open>
  The claim C1 on the example: deactivating at the point 2 switches off \<open>con1[2]\<close> and
  \<open>b2[2,7]\<close>, and leaves \<open>con1[1]\<close> and \<open>con2[7]\<close> active.
\<close>

theorem deactivate_model_at_exact_witness:
  "\<not> data_active (fst (deactivate_model_at ex_model ex_state 0 (Points [2]) True True)) (1, [2]) \<and>
   data_active (fst (deactivate_model_at ex_model ex_state 0 (Points [2]) True True)) (1, [1]) \<and>
   \<not> data_active (fst (deactivate_model_at ex_model ex_state 0 (Points [2]) True True)) (2, [2, 7]) \<and>
   data_active (fst (deactivate_model_at ex_model ex_state 0 (Points [2]) True True)) (4, [7])"
proof -
  obtain s' d where run:
    "deactivate_model_at ex_model ex_state 0 (Points [2]) True True = (s', Inr d)"
    using ex_returns[of "[2]" True] by auto
  from deactivate_model_at_exact[OF run]
  have "cdata s' = switch False (targets_of ex_model ex_state 0 [2]) (cdata ex_state)" by simp
  then have "cdata s' = switch False {(1, [2]), (2, [2, 7]), (5, [2])} (cdata ex_state)"
    unfolding ex_targets by (simp add: insert_commute)
  then show ?thesis
    unfolding run by (simp add: data_active_def switch_def ex_state_def ex_store_def)
qed

text \<open>
  The claim C5 on the example: 9 is not a point of the set 0.
\<close>

theorem deactivate_model_at_invalid_point_witness:
  "9 \<notin> set (members ex_model 0) \<and>
   deactivate_model_at ex_model ex_state 0 (Point 9) True False = (ex_state, Inl InvalidPointError)"
proof -
  have h: "\<exists>pt \<in> set (as_list (Point 9)). pt \<notin> set (members ex_model 0)"
    by (simp add: ex_model_def)
  show ?thesis
    using deactivate_model_at_invalid_point[OF h, of ex_state True False]
    by (simp add: ex_model_def)
qed

text \<open>
  The claim C7 on the example with a forward scheme.
\<close>

theorem solve_unsupported_scheme_witness:
  "disc_info ex_forward 0 ''scheme'' = Some ''FORWARD Difference'' \<and>
   solve_consistent_initial_conditions ex_forward ex_state 0 ex_solver =
     (ex_state, Inl UnsupportedSchemeError)"
proof -
  have h: "disc_info ex_forward 0 ''scheme'' = Some ''FORWARD Difference''"
    by (simp add: ex_forward_def)
  show ?thesis
    using solve_unsupported_scheme[OF h, of ex_state ex_solver] h by simp
qed

text \<open>
  The claim C10 on the example: the point 1 is deactivated, the point 9 is refused.
\<close>

theorem deactivate_model_at_single_point_witness:
  "deactivate_model_at ex_model ex_state 0 (Point 1) True True =
     deactivate_model_at ex_model ex_state 0 (Points [1]) True True \<and>
   deactivate_model_at ex_model ex_state 0 (Point 9) True True = (ex_state, Inl InvalidPointError) \<and>
   dom (projr (snd (deactivate_model_at ex_model ex_state 0 (Point 1) True True))) = {1} \<and>
   \<not> data_active (fst (deactivate_model_at ex_model ex_state 0 (Point 1) True True)) (1, [1]) \<and>
   data_active (fst (deactivate_model_at ex_model ex_state 0 (Point 1) True True)) (1, [2])"
proof -
  note t1 = deactivate_model_at_single_point[of ex_model ex_state 0 1 True True]
  note t9 = deactivate_model_at_single_point[of ex_model ex_state 0 9 True True]
  obtain s' d where run0:
    "deactivate_model_at ex_model ex_state 0 (Points [1]) True True = (s', Inr d)"
    using ex_returns[of "[1]" True] by auto
  with t1 have run: "deactivate_model_at ex_model ex_state 0 (Point 1) True True = (s', Inr d)"
    by simp
  from t1 run have dm: "dom d = {1}"
    and c: "cdata s' = switch False (set (targets ex_model ex_state 0 1)) (cdata ex_state)"
    by blast+
  have tg: "set (targets ex_model ex_state 0 1) = {(1, [1]), (2, [1, 7]), (5, [1])}"
    using ex_targets[of "[1]"] by (simp add: targets_of_def insert_commute)
  have nine: "9 \<notin> set (members ex_model 0)" by (simp add: ex_model_def)
  have inv: "deactivate_model_at ex_model ex_state 0 (Point 9) True True =
             (ex_state, Inl InvalidPointError)"
    using t9 nine by blast
  have flags: "\<not> data_active s' (1, [1]) \<and> data_active s' (1, [2])"
    unfolding data_active_def c tg by (simp add: switch_def ex_state_def ex_store_def)
  show ?thesis unfolding run using run0 inv dm flags by simp
qed

text \<open>
  The claim C6 on the example: \<open>con3\<close> has no data at the point 0, so the call at the
  points 1 and 0 fails there, after \<open>con1[1]\<close> and \<open>b2[0,7]\<close> have been switched off.
\<close>

theorem deactivate_model_at_missing_index_witness:
  "snd (deactivate_model_at ex_model ex_state 0 (Points [1, 0]) False True) = Inl MissingIndexError \<and>
   \<not> data_active (fst (deactivate_model_at ex_model ex_state 0 (Points [1, 0]) False True)) (1, [1]) \<and>
   \<not> data_active (fst (deactivate_model_at ex_model ex_state 0 (Points [1, 0]) False True)) (2, [0, 7]) \<and>
   data_active (fst (deactivate_model_at ex_model ex_state 0 (Points [1, 0]) False True)) (1, [2])"
proof -
  have valid: "\<forall>pt \<in> set (as_list (Points [1, 0])). pt \<in> set (members ex_model 0)"
    by (simp add: ex_model_def)
  have indexed: "\<not> raises (events ex_model ex_state 0 (as_list (Points [1, 0])))"
    unfolding as_list.simps ex_events by simp
  have missing: "\<exists>x \<in> targets_of ex_model ex_state 0 (as_list (Points [1, 0])). cdata ex_state x = None"
    unfolding as_list.simps ex_targets by (simp add: ex_state_def ex_store_def)
  have before: "takeWhile (\<lambda>e. \<not> lookup_fails ex_state e) (events ex_model ex_state 0 (as_list (Points [1, 0]))) =
      [Attempt 1 ''con1'' (1, [1]), Attempt 0 ''con1'' (1, [0]),
       Attempt 1 ''b2'' (2, [1, 7]), Attempt 0 ''b2'' (2, [0, 7]),
       Attempt 1 ''con3'' (5, [1])]"
    unfolding as_list.simps ex_events by (simp add: ex_state_def ex_store_def)
  from deactivate_model_at_missing_index[OF valid indexed missing, of True]
  show ?thesis
    unfolding before by (simp add: data_active_def switch_def ex_state_def ex_store_def)
qed

text \<open>
  The claim C9 on the example, at the points 1 and 2.
\<close>

theorem deactivate_model_at_idempotent_witness:
  "\<not> isl (snd (deactivate_model_at ex_model
          (fst (deactivate_model_at ex_model ex_state 0 (Points [1, 2]) True True))
          0 (Points [1, 2]) True True)) \<and>
   cdata (fst (deactivate_model_at ex_model
          (fst (deactivate_model_at ex_model ex_state 0 (Points [1, 2]) True True))
          0 (Points [1, 2]) True True)) =
   cdata (fst (deactivate_model_at ex_model ex_state 0 (Points [1, 2]) True True))"
proof -
  obtain s1 d1 where run:
    "deactivate_model_at ex_model ex_state 0 (Points [1, 2]) True True = (s1, Inr d1)"
    using ex_returns[of "[1, 2]" True] by auto
  from deactivate_model_at_idempotent[OF run] obtain s2 d2 where
    "deactivate_model_at ex_model s1 0 (Points [1, 2]) True True = (s2, Inr d2)"
    "cdata s2 = cdata s1" by blast
  then show ?thesis using run by simp
qed

text \<open>
  The claim C8 on the example, at the points 1 and 2.
\<close>

theorem deactivate_then_reactivate_witness:
  "cdata (fst (reactivate
       (fst (deactivate_model_at ex_model ex_state 0 (Points [1, 2]) True True))
       (projr (snd (deactivate_model_at ex_model ex_state 0 (Points [1, 2]) True True)))
       [1, 2])) = cdata ex_state"
proof -
  obtain s1 d1 where run:
    "deactivate_model_at ex_model ex_state 0 (Points [1, 2]) True True = (s1, Inr d1)"
    using ex_returns[of "[1, 2]" True] by auto
  from deactivate_then_reactivate[OF ex_all_active run] obtain s2 where
    "reactivate s1 d1 (as_list (Points [1, 2])) = (s2, None)" "cdata s2 = cdata ex_state"
    by blast
  then show ?thesis using run by simp
qed

section \<open>Inconsistent initial conditions and the consistent solve\<close>


lemma set_add_component: "set (add_component acc x) = insert x (set acc)"
  by (auto simp: add_component_def)

lemma check_indices_Inr:
  "check_indices s acc name c g idxs t0 tol a w = (s', Inr r) \<Longrightarrow>
     cdata s' = cdata s \<and> cactive s' = cactive s \<and>
     set r = set acc \<union> set (filter (is_violated (cdata s) tol) (map (\<lambda>i. (c, g i t0)) idxs))"
proof (induction idxs arbitrary: s acc)
  case Nil
  then show ?case by simp
next
  case (Cons i idxs)
  show ?case
  proof (cases "cdata s (c, g i t0)")
    case None
    define s1 where "s1 = (if \<not> w then print s (index_warning name (g i t0)) else s)"
    have same: "cdata s1 = cdata s" "cactive s1 = cactive s"
      by (simp_all add: s1_def cdata_print cactive_print)
    from Cons.prems None have rest: "check_indices s1 acc name c g idxs t0 tol a w = (s', Inr r)"
      by (cases a) (simp_all add: Let_def s1_def)
    from Cons.IH[OF rest] show ?thesis using None same by (simp add: is_violated_def)
  next
    case (Some cd)
    from Cons.prems Some have rest:
      "check_indices s (if violated tol cd then add_component acc (c, g i t0) else acc)
         name c g idxs t0 tol a w = (s', Inr r)"
      by (simp add: Let_def)
    from Cons.IH[OF rest] show ?thesis using Some
      by (auto simp: set_add_component is_violated_def)
  qed
qed

lemma check_indices_Inl:
  "check_indices s acc name c g idxs t0 tol a w = (s', Inl e) \<Longrightarrow> e = MissingIndexError"
proof (induction idxs arbitrary: s acc)
  case Nil
  then show ?case by simp
next
  case (Cons i idxs)
  show ?case
  proof (cases "cdata s (c, g i t0)")
    case None
    then show ?thesis using Cons.prems Cons.IH
      by (cases a) (auto simp: Let_def)
  next
    case (Some cd)
    then show ?thesis using Cons.prems Cons.IH by (auto simp: Let_def)
  qed
qed

lemma located_at_Inr:
  "get_index_set_except m (component m c) time = Inr (se, g) \<Longrightarrow>
     located_at m time c t = map (\<lambda>i. (c, g i t)) se"
  by (simp add: located_at_def)

lemma check_constraints_Inr:
  "check_constraints m s acc cons time t0 tol a w = (s', Inr r) \<Longrightarrow>
     cdata s' = cdata s \<and> cactive s' = cactive s \<and>
     set r = set acc \<union>
       set (concat (map (\<lambda>c. filter (is_violated (cdata s) tol) (located_at m time c t0))
                        (filter (eligible m time) cons)))"
proof (induction cons arbitrary: s acc)
  case Nil
  then show ?case by simp
next
  case (Cons c cons)
  show ?case
  proof (cases "eligible m time c")
    case False
    then have "check_constraints m s acc (c # cons) time t0 tol a w =
               check_constraints m s acc cons time t0 tol a w"
      by (auto simp: eligible_def)
    with Cons.prems Cons.IH[of s acc] False show ?thesis by simp
  next
    case True
    then have ex: "is_explicitly_indexed_by (component m c) time"
      and ni: "\<not> is_in_block_indexed_by m (component m c) time"
      by (simp_all add: eligible_def)
    show ?thesis
    proof (cases "get_index_set_except m (component m c) time")
      case (Inl e)
      with Cons.prems ex ni show ?thesis by simp
    next
      case (Inr p)
      obtain se g where p: "p = (se, g)" by (cases p)
      from Cons.prems ex ni Inr p obtain s1 r1 where
        ci: "check_indices s acc (cname (component m c)) c g se t0 tol a w = (s1, Inr r1)" and
        rest: "check_constraints m s1 r1 cons time t0 tol a w = (s', Inr r)"
        by (auto split: prod.splits sum.splits)
      note i = check_indices_Inr[OF ci]
      note ih = Cons.IH[OF rest]
      have la: "located_at m time c t0 = map (\<lambda>i. (c, g i t0)) se"
        using Inr p by (simp add: located_at_Inr)
      show ?thesis using i ih True la by auto
    qed
  qed
qed

lemma check_constraints_Inl:
  "check_constraints m s acc cons time t0 tol a w = (s', Inl e) \<Longrightarrow>
     e \<noteq> UnsupportedNestingError"
proof (induction cons arbitrary: s acc)
  case Nil
  then show ?case by simp
next
  case (Cons c cons)
  show ?case
  proof (cases "eligible m time c")
    case False
    then have "check_constraints m s acc (c # cons) time t0 tol a w =
               check_constraints m s acc cons time t0 tol a w"
      by (auto simp: eligible_def)
    with Cons.prems Cons.IH[of s acc] show ?thesis by simp
  next
    case True
    then have ex: "is_explicitly_indexed_by (component m c) time"
      and ni: "\<not> is_in_block_indexed_by m (component m c) time"
      by (simp_all add: eligible_def)
    show ?thesis
    proof (cases "get_index_set_except m (component m c) time")
      case (Inl e')
      then have "e' = NotIndexedError"
        by (simp add: get_index_set_except_def split: if_splits)
      with Cons.prems ex ni Inl show ?thesis by auto
    next
      case (Inr p)
      obtain se g where p: "p = (se, g)" by (cases p)
      show ?thesis
      proof (cases "check_indices s acc (cname (component m c)) c g se t0 tol a w")
        case (Pair s1 res)
        show ?thesis
        proof (cases res)
          case (Inl e')
          with Pair have "e' = MissingIndexError" using check_indices_Inl by fastforce
          with Cons.prems ex ni Inr p Pair Inl show ?thesis by auto
        next
          case r1: (Inr r1)
          with Cons.prems ex ni Inr p Pair Cons.IH[of s1 r1] show ?thesis by auto
        qed
      qed
    qed
  qed
qed


lemma violating_append: "violating tol (xs @ ys) = violating tol xs @ violating tol ys"
  by (simp add: violating_def)

lemma violating_Nil: "violating tol [] = []"
  by (simp add: violating_def)

lemma fresh_Nil: "fresh seen []"
  by (simp add: fresh_def)

lemma fresh_append: "fresh seen (vs @ ws) = (fresh seen vs \<and> fresh (seen @ vs) ws)"
  by (auto simp: fresh_def)

lemma fresh_cong: "set a = set b \<Longrightarrow> fresh a vs = fresh b vs"
  by (simp add: fresh_def)

lemma check_block_data_spec:
  "(check_block_data acc xs tol = Inr r \<longrightarrow>
      r = acc @ violating tol xs \<and> fresh acc (violating tol xs)) \<and>
   (check_block_data acc xs tol = Inl e \<longrightarrow>
      e = UnsupportedNestingError \<and> \<not> fresh acc (violating tol xs))"
proof (induction acc xs tol rule: check_block_data.induct)
  case (1 acc tol)
  then show ?case by (simp add: violating_def fresh_def)
next
  case (2 acc x condata rest tol)
  show ?case
  proof (cases "violated tol condata")
    case False
    then show ?thesis using 2 by (simp add: violating_def)
  next
    case True
    show ?thesis
    proof (cases "x \<in> set acc")
      case xin: True
      then show ?thesis using True by (simp add: violating_def fresh_def)
    next
      case xout: False
      have v: "violating tol ((x, condata) # rest) = x # violating tol rest"
        using True by (simp add: violating_def)
      have ac: "add_component acc x = acc @ [x]" using xout by (simp add: add_component_def)
      have fr: "fresh acc (x # violating tol rest) = fresh (acc @ [x]) (violating tol rest)"
        using xout by (auto simp: fresh_def)
      from 2(1)[OF True xout] show ?thesis
        using True xout by (simp add: v ac fr)
    qed
  qed
qed

lemma check_block_indices_spec:
  "(check_block_indices m s acc blk g idxs t0 tol = Inr r \<longrightarrow>
      r = acc @ violating tol (concat (map (\<lambda>i. component_data_objects m s (blk, g i t0)) idxs)) \<and>
      fresh acc (violating tol (concat (map (\<lambda>i. component_data_objects m s (blk, g i t0)) idxs)))) \<and>
   (check_block_indices m s acc blk g idxs t0 tol = Inl UnsupportedNestingError \<longrightarrow>
      \<not> fresh acc (violating tol (concat (map (\<lambda>i. component_data_objects m s (blk, g i t0)) idxs))))"
proof (induction idxs arbitrary: acc)
  case Nil
  then show ?case by (simp add: violating_Nil fresh_Nil)
next
  case (Cons i idxs)
  let ?X = "component_data_objects m s (blk, g i t0)"
  show ?case
  proof (cases "cdata s (blk, g i t0)")
    case None
    then show ?thesis by (simp add: Let_def)
  next
    case (Some bd)
    show ?thesis
    proof (cases "check_block_data acc ?X tol")
      case (Inl e)
      with check_block_data_spec[of acc ?X tol _ e]
      have "e = UnsupportedNestingError" "\<not> fresh acc (violating tol ?X)" by simp_all
      then show ?thesis using Some Inl
        by (simp add: Let_def violating_append fresh_append)
    next
      case (Inr r1)
      with check_block_data_spec[of acc ?X tol r1]
      have r1: "r1 = acc @ violating tol ?X" and f1: "fresh acc (violating tol ?X)" by simp_all
      have step: "check_block_indices m s acc blk g (i # idxs) t0 tol =
                  check_block_indices m s r1 blk g idxs t0 tol"
        using Some Inr by (simp add: Let_def)
      show ?thesis unfolding step using Cons.IH[of r1] f1
        by (simp add: r1 violating_append fresh_append)
    qed
  qed
qed

lemma check_blocks_spec:
  "(check_blocks m s acc blks time t0 tol = Inr r \<longrightarrow>
      r = acc @ violating tol (concat (map (\<lambda>blk. concat (map (component_data_objects m s)
                (located_at m time blk t0))) (filter (eligible m time) blks))) \<and>
      fresh acc (violating tol (concat (map (\<lambda>blk. concat (map (component_data_objects m s)
                (located_at m time blk t0))) (filter (eligible m time) blks))))) \<and>
   (check_blocks m s acc blks time t0 tol = Inl UnsupportedNestingError \<longrightarrow>
      \<not> fresh acc (violating tol (concat (map (\<lambda>blk. concat (map (component_data_objects m s)
                (located_at m time blk t0))) (filter (eligible m time) blks)))))"
proof (induction blks arbitrary: acc)
  case Nil
  then show ?case by (simp add: violating_Nil fresh_Nil)
next
  case (Cons blk blks)
  show ?case
  proof (cases "eligible m time blk")
    case False
    then have "check_blocks m s acc (blk # blks) time t0 tol =
               check_blocks m s acc blks time t0 tol"
      by (auto simp: eligible_def)
    then show ?thesis using Cons.IH[of acc] False by simp
  next
    case True
    then have ex: "is_explicitly_indexed_by (component m blk) time"
      and ni: "\<not> is_in_block_indexed_by m (component m blk) time"
      by (simp_all add: eligible_def)
    show ?thesis
    proof (cases "get_index_set_except m (component m blk) time")
      case (Inl e)
      then have "e = NotIndexedError"
        by (simp add: get_index_set_except_def split: if_splits)
      then show ?thesis using ex ni Inl by simp
    next
      case (Inr p)
      obtain se g where p: "p = (se, g)" by (cases p)
      let ?X = "concat (map (\<lambda>i. component_data_objects m s (blk, g i t0)) se)"
      have la: "concat (map (component_data_objects m s) (located_at m time blk t0)) = ?X"
        using Inr p by (simp add: located_at_Inr comp_def)
      show ?thesis
      proof (cases "check_block_indices m s acc blk g se t0 tol")
        case e: (Inl e)
        have "e = UnsupportedNestingError \<longrightarrow> \<not> fresh acc (violating tol ?X)"
          using check_block_indices_spec[of m s acc blk g se t0 tol] e by simp
        then show ?thesis using ex ni Inr p e True
          by (simp add: la violating_append fresh_append)
      next
        case r1: (Inr r1)
        with check_block_indices_spec[of m s acc blk g se t0 tol r1]
        have r1e: "r1 = acc @ violating tol ?X" and f1: "fresh acc (violating tol ?X)"
          by simp_all
        have step: "check_blocks m s acc (blk # blks) time t0 tol =
                    check_blocks m s r1 blks time t0 tol"
          using ex ni Inr p r1 by simp
        show ?thesis unfolding step using Cons.IH[of r1] f1 True
          by (simp add: la r1e violating_append fresh_append)
      qed
    qed
  qed
qed

lemma data_active_cong: "cdata s' = cdata s \<Longrightarrow> data_active s' = data_active s"
  by (rule ext) (simp add: data_active_def)

lemma component_objects_cong:
  assumes "cdata s' = cdata s" and "cactive s' = cactive s"
  shows "component_objects m s' cts = component_objects m s cts"
  unfolding component_objects_def data_active_cong[OF assms(1)] assms(2) by (rule refl)

lemma component_data_objects_cong:
  assumes "cdata s' = cdata s" and "cactive s' = cactive s"
  shows "component_data_objects m s' = component_data_objects m s"
  unfolding component_data_objects_def data_active_cong[OF assms(1)] assms by (rule refl)


text \<open>The two loops of the checker, put together.\<close>

lemma get_inconsistent_spec:
  assumes t: "default_t0 model time t0 = Inr t"
  shows "(get_inconsistent_initial_conditions model s time tol t0 a w = (s', Inr r) \<longrightarrow>
            cdata s' = cdata s \<and>
            fresh (constraint_findings model s time t tol)
                  (violating tol (block_visits model s time t)) \<and>
            set r = set (constraint_findings model s time t tol) \<union>
                    set (violating tol (block_visits model s time t))) \<and>
         (get_inconsistent_initial_conditions model s time tol t0 a w =
            (s', Inl UnsupportedNestingError) \<longrightarrow>
            \<not> fresh (constraint_findings model s time t tol)
                    (violating tol (block_visits model s time t)))"
proof (cases "check_constraints model s [] (component_objects model s [Constraint]) time t tol a w")
  case (Pair s1 res)
  show ?thesis
  proof (cases res)
    case (Inl e)
    with Pair have "e \<noteq> UnsupportedNestingError" using check_constraints_Inl by fastforce
    then show ?thesis using t Pair Inl
      by (auto simp: get_inconsistent_initial_conditions_def)
  next
    case (Inr found)
    note c = check_constraints_Inr[OF Pair[unfolded Inr]]
    have found: "set found = set (constraint_findings model s time t tol)"
      using c by (simp add: constraint_findings_def eligible_components_def)
    have c1: "cdata s1 = cdata s" and c2: "cactive s1 = cactive s"
      using c by simp_all
    have co: "component_objects model s1 [Block] = component_objects model s [Block]"
      by (rule component_objects_cong[OF c1 c2])
    have cdo: "component_data_objects model s1 = component_data_objects model s"
      by (rule component_data_objects_cong[OF c1 c2])
    have run: "get_inconsistent_initial_conditions model s time tol t0 a w =
        (s1, check_blocks model s1 found (component_objects model s [Block]) time t tol)"
      using t Pair Inr co by (simp add: get_inconsistent_initial_conditions_def)
    have V: "concat (map (\<lambda>blk. concat (map (component_data_objects model s1)
                (located_at model time blk t)))
                (filter (eligible model time) (component_objects model s [Block]))) =
             block_visits model s time t"
      by (simp add: block_visits_def eligible_components_def cdo)
    note b = check_blocks_spec[of model s1 found "component_objects model s [Block]" time t tol,
        unfolded V]
    show ?thesis
      unfolding run using b[of r] c found fresh_cong[OF found]
      by auto
  qed
qed


text \<open>
  Claim C4, amended. A nested block indexed by the target set does not raise by itself.
  When \<^verbatim>\<open>get_inconsistent_initial_conditions\<close> returns, the inconsistent data met in the
  block traversal are pairwise distinct and none of them was flagged by the constraint loop,
  and the result holds exactly the findings of the two loops; so whenever an inconsistent data
  of the block traversal is already in the result set the call does not return. When the call
  raises \<open>UnsupportedNestingError\<close>, such a repeated data exists.
\<close>

theorem get_inconsistent_nesting_error:
  assumes "default_t0 model time t0 = Inr t"
  shows "(\<forall>s' r. get_inconsistent_initial_conditions model s time tol t0 a w = (s', Inr r) \<longrightarrow>
            distinct (violating tol (block_visits model s time t)) \<and>
            set (violating tol (block_visits model s time t)) \<inter>
              set (constraint_findings model s time t tol) = {} \<and>
            set r = set (constraint_findings model s time t tol) \<union>
                    set (violating tol (block_visits model s time t))) \<and>
         (\<forall>s'. get_inconsistent_initial_conditions model s time tol t0 a w =
                 (s', Inl UnsupportedNestingError) \<longrightarrow>
            \<not> (distinct (violating tol (block_visits model s time t)) \<and>
               set (violating tol (block_visits model s time t)) \<inter>
                 set (constraint_findings model s time t tol) = {}))"
  using get_inconsistent_spec[OF assms, of s tol a w] by (simp add: fresh_def)









lemma nested_run:
  "get_inconsistent_initial_conditions nested_model nested_state 0 (1 / 100000000) None True False =
     (nested_state, Inr [(3, [])])"
proof -
  have t: "default_t0 nested_model 0 None = Inr 0"
    by (simp add: default_t0_def first_def nested_model_def)
  have c: "component_objects nested_model nested_state [Constraint] = [3]"
    by (simp add: component_objects_def nested_model_def nested_state_def data_active_def)
  have bl: "component_objects nested_model nested_state [Block] = [1, 2]"
    by (simp add: component_objects_def nested_model_def nested_state_def data_active_def)
  have l1: "check_constraints nested_model nested_state [] [3] 0 0 (1 / 100000000) True False =
            (nested_state, Inr [])"
    by (simp add: is_explicitly_indexed_by_def nested_model_def)
  have d: "component_data_objects nested_model nested_state (1, [0]) =
           [((3, []), \<lparr>active = True, body = 1, lower = 0, upper = 0\<rparr>)]"
    by (simp add: component_data_objects_def nested_model_def nested_state_def data_active_def)
  have e: "is_explicitly_indexed_by (component nested_model 1) 0"
    "\<not> is_in_block_indexed_by nested_model (component nested_model 1) 0"
    "get_index_set_except nested_model (component nested_model 1) 0 = Inr ([[]], index_getter 0)"
    "is_explicitly_indexed_by (component nested_model 2) 0"
    "is_in_block_indexed_by nested_model (component nested_model 2) 0"
    by (simp_all add: is_explicitly_indexed_by_def is_in_block_indexed_by_def
          get_index_set_except_def nested_model_def)
  have bd: "cdata nested_state (1, [0]) = Some \<lparr>active = True, body = 0, lower = 0, upper = 0\<rparr>"
    by (simp add: nested_state_def)
  have l2: "check_blocks nested_model nested_state [] [1, 2] 0 0 (1 / 100000000) = Inr [(3, [])]"
    by (simp add: e bd d index_getter_def Let_def violated_def add_component_def
          del: One_nat_def)
  show ?thesis
    by (simp add: get_inconsistent_initial_conditions_def t c bl l1 l2
          del: check_constraints.simps check_blocks.simps One_nat_def)
qed

text \<open>
  The claim C4 as it is written fails: in this model the block 1 is indexed by the set 0,
  its data at the point 0 holds the block 2, indexed by the set 0 as well, which holds an
  inconsistent constraint; the call returns that constraint and raises nothing, because the
  inner block is skipped as implicitly indexed.
\<close>

theorem nested_blocks_return_counterexample:
  "ctype (component nested_model 1) = Block \<and>
   is_explicitly_indexed_by (component nested_model 1) 0 \<and>
   ctype (component nested_model 2) = Block \<and>
   is_explicitly_indexed_by (component nested_model 2) 0 \<and>
   (1, [0]) \<in> set (enclosing (component nested_model 2)) \<and>
   get_inconsistent_initial_conditions nested_model nested_state 0 (1 / 100000000) None True False =
     (nested_state, Inr [(3, [])])"
  using nested_run by (simp add: is_explicitly_indexed_by_def nested_model_def)

lemma aliased_run:
  "get_inconsistent_initial_conditions aliased_model nested_state 0 (1 / 100000000) None True False =
     (nested_state, Inl UnsupportedNestingError)"
proof -
  have t: "default_t0 aliased_model 0 None = Inr 0"
    by (simp add: default_t0_def first_def aliased_model_def nested_model_def)
  have c: "component_objects aliased_model nested_state [Constraint] = [3]"
    by (simp add: component_objects_def aliased_model_def nested_model_def nested_state_def
          data_active_def)
  have bl: "component_objects aliased_model nested_state [Block] = [1, 1, 2]"
    by (simp add: component_objects_def aliased_model_def nested_model_def nested_state_def
          data_active_def)
  have l1: "check_constraints aliased_model nested_state [] [3] 0 0 (1 / 100000000) True False =
            (nested_state, Inr [])"
    by (simp add: is_explicitly_indexed_by_def aliased_model_def nested_model_def)
  have d: "component_data_objects aliased_model nested_state (1, [0]) =
           [((3, []), \<lparr>active = True, body = 1, lower = 0, upper = 0\<rparr>)]"
    by (simp add: component_data_objects_def aliased_model_def nested_model_def nested_state_def
          data_active_def)
  have e: "is_explicitly_indexed_by (component aliased_model 1) 0"
    "\<not> is_in_block_indexed_by aliased_model (component aliased_model 1) 0"
    "get_index_set_except aliased_model (component aliased_model 1) 0 = Inr ([[]], index_getter 0)"
    by (simp_all add: is_explicitly_indexed_by_def is_in_block_indexed_by_def
          get_index_set_except_def aliased_model_def nested_model_def)
  have bd: "cdata nested_state (1, [0]) = Some \<lparr>active = True, body = 0, lower = 0, upper = 0\<rparr>"
    by (simp add: nested_state_def)
  have l2: "check_blocks aliased_model nested_state [] [1, 1, 2] 0 0 (1 / 100000000) =
            Inl UnsupportedNestingError"
    by (simp add: e bd d index_getter_def Let_def violated_def add_component_def
          del: One_nat_def)
  show ?thesis
    by (simp add: get_inconsistent_initial_conditions_def t c bl l1 l2
          del: check_constraints.simps check_blocks.simps One_nat_def)
qed

text \<open>
  The amended claim C4 on a model whose traversal yields the block 1 twice: the second visit
  meets the same inconsistent constraint and the call raises \<open>UnsupportedNestingError\<close>.
\<close>

theorem get_inconsistent_nesting_error_witness:
  "default_t0 aliased_model 0 None = Inr 0 \<and>
   get_inconsistent_initial_conditions aliased_model nested_state 0 (1 / 100000000) None True False =
     (nested_state, Inl UnsupportedNestingError) \<and>
   \<not> (distinct (violating (1 / 100000000) (block_visits aliased_model nested_state 0 0)) \<and>
      set (violating (1 / 100000000) (block_visits aliased_model nested_state 0 0)) \<inter>
        set (constraint_findings aliased_model nested_state 0 0 (1 / 100000000)) = {})"
proof -
  have t: "default_t0 aliased_model 0 None = Inr 0"
    by (simp add: default_t0_def first_def aliased_model_def nested_model_def)
  from get_inconsistent_nesting_error[OF t, of nested_state "1 / 100000000" True False] aliased_run
  show ?thesis using t by blast
qed














end
